theory Spec2Isabelle
  imports Main "HOL-Library.Char_ord" "HOL-Library.List_Lexorder" "HOL-Library.Sublist"
begin

section \<open>The mount-table diff engine (pkg/mount/libmount/mount\_table\_diff.go)\<close>

subsection \<open>Data model\<close>

text \<open>
  \<^verbatim>\<open>type MountAction uint8\<close> with its four constants, in the order of the \<^verbatim>\<open>iota\<close> block.
\<close>

datatype MountAction =
  MountActionMount
| MountActionUmount
| MountActionMove
| MountActionRemount

text \<open>
  Modelled from the spec: the struct \<^verbatim>\<open>Filesystem\<close> is declared in a file of the package
  that is not part of the sources at hand. The diff engine reads it only through the
  accessors \<^verbatim>\<open>GetID\<close>, \<^verbatim>\<open>GetSource\<close>, \<^verbatim>\<open>GetTarget\<close>, \<^verbatim>\<open>GetVFSOptions\<close> and
  \<^verbatim>\<open>GetFSOptions\<close>; the record has one field per accessor. Go strings are byte sequences
  and so are HOL strings; the identifier is a Go \<^verbatim>\<open>int\<close> that is only ever compared for
  equality.
\<close>

record Filesystem =
  ID :: int
  Source :: string
  Target :: string
  VFSOptions :: string
  FSOptions :: string

text \<open>
  Modelled from the spec: the struct \<^verbatim>\<open>MountTab\<close> is not part of the sources at hand
  either. The engine uses its field \<^verbatim>\<open>entries\<close> (ranged over in table order), and the
  methods \<^verbatim>\<open>Size\<close> and \<^verbatim>\<open>Find\<close>. A table argument of \<^verbatim>\<open>GenerateDiff\<close> is a pointer
  that may be nil: \<open>MountTab option\<close>.
\<close>

record MountTab =
  entries :: "Filesystem list"

text \<open>
  \<^verbatim>\<open>MountTabDiffEntry\<close> holds two pointers to filesystem entries, either of which may be
  nil. The record is polymorphic in what stands for a non-nil pointer. \<^verbatim>\<open>GenerateDiff\<close>
  never writes through such a pointer, so there the pointer is represented by the entry
  it points to (\<open>Filesystem MountTabDiffEntry\<close>); the accessors \<^verbatim>\<open>GetOldFs\<close> and
  \<^verbatim>\<open>GetNewFs\<close>, whose point is the copy they make, are modelled over an explicit store
  with addresses (\<open>addr MountTabDiffEntry\<close>, below).
\<close>

record 'p MountTabDiffEntry =
  oldFs :: "'p option"
  newFs :: "'p option"
  action :: MountAction

type_synonym MountTabDiff = "Filesystem MountTabDiffEntry list"

subsection \<open>Mount table lookups\<close>

text \<open>
  Modelled from the spec: \<^verbatim>\<open>Size()\<close> is the number of entries; \<^verbatim>\<open>SourceFilter(v)\<close> holds
  iff the entry's Source equals \<open>v\<close>, \<^verbatim>\<open>TargetFilter(v)\<close> iff its Target equals \<open>v\<close>;
  \<^verbatim>\<open>Find(predicates...)\<close> returns the first entry, in table order, that satisfies all the
  given predicates, or nil.
\<close>

type_synonym Filter = "Filesystem \<Rightarrow> bool"

definition Size :: "MountTab \<Rightarrow> nat" where
  "Size tab = length (entries tab)"

definition SourceFilter :: "string \<Rightarrow> Filter" where
  "SourceFilter v fs = (Source fs = v)"

definition TargetFilter :: "string \<Rightarrow> Filter" where
  "TargetFilter v fs = (Target fs = v)"

definition Find :: "MountTab \<Rightarrow> Filter list \<Rightarrow> Filesystem option" where
  "Find tab preds = List.find (\<lambda>fs. list_all (\<lambda>p. p fs) preds) (entries tab)"

subsection \<open>Building the diff list\<close>

definition NewMountTabDiff :: MountTabDiff where
  "NewMountTabDiff = []"

definition AddDiffEntry ::
  "MountTabDiff \<Rightarrow> Filesystem option \<Rightarrow> Filesystem option \<Rightarrow> MountAction \<Rightarrow> MountTabDiff" where
  "AddDiffEntry md ofs nfs act = md @ [\<lparr>oldFs = ofs, newFs = nfs, action = act\<rparr>]"

text \<open>
  The condition inside the loop of \<^verbatim>\<open>getMountEntry\<close>: the entry is a Mount entry, its
  \<^verbatim>\<open>newFs\<close> is not nil, and the identifier and the source of \<^verbatim>\<open>newFs\<close> are the ones
  searched for.
\<close>

definition isMountOf :: "Filesystem MountTabDiffEntry \<Rightarrow> string \<Rightarrow> int \<Rightarrow> bool" where
  "isMountOf diffEntry source i =
     (action diffEntry = MountActionMount \<and>
      (case newFs diffEntry of
         None \<Rightarrow> False
       | Some nfs \<Rightarrow> ID nfs = i \<and> Source nfs = source))"

text \<open>
  \<^verbatim>\<open>getMountEntry\<close> returns a pointer to the first diff entry that satisfies the condition,
  or nil. The diff list is a slice of pointers to entries that are never removed, so the
  pointer is modelled by the position of the entry in the list.
\<close>

fun getMountEntry :: "MountTabDiff \<Rightarrow> string \<Rightarrow> int \<Rightarrow> nat option" where
  "getMountEntry [] source i = None"
| "getMountEntry (diffEntry # md) source i =
     (if isMountOf diffEntry source i then Some 0
      else map_option Suc (getMountEntry md source i))"

text \<open>
  The body of the first loop of \<^verbatim>\<open>GenerateDiff\<close> (one entry \<open>nfs\<close> of the new table).
\<close>

definition searchNew :: "MountTab \<Rightarrow> Filesystem \<Rightarrow> MountTabDiff \<Rightarrow> MountTabDiff" where
  "searchNew oldTab nfs diffTable =
     (case Find oldTab [SourceFilter (Source nfs), TargetFilter (Target nfs)] of
        None \<Rightarrow> AddDiffEntry diffTable None (Some nfs) MountActionMount
      | Some ofs \<Rightarrow>
          if VFSOptions ofs \<noteq> VFSOptions nfs \<or> FSOptions ofs \<noteq> FSOptions nfs
          then AddDiffEntry diffTable (Some ofs) (Some nfs) MountActionRemount
          else diffTable)"

text \<open>
  The body of the second loop (one entry \<open>ofs\<close> of the old table). The two assignments
  through the pointer \<^verbatim>\<open>de\<close> update the entry at its position in the list.
\<close>

definition searchOld :: "MountTab \<Rightarrow> Filesystem \<Rightarrow> MountTabDiff \<Rightarrow> MountTabDiff" where
  "searchOld newTab ofs diffTable =
     (case Find newTab [SourceFilter (Source ofs), TargetFilter (Target ofs)] of
        Some nfs \<Rightarrow> diffTable
      | None \<Rightarrow>
          (case getMountEntry diffTable (Source ofs) (ID ofs) of
             None \<Rightarrow> AddDiffEntry diffTable (Some ofs) None MountActionUmount
           | Some de \<Rightarrow>
               diffTable[de := (diffTable ! de)\<lparr>oldFs := Some ofs, action := MountActionMove\<rparr>]))"

text \<open>The two loops of the general case.\<close>

definition pass1 :: "MountTab \<Rightarrow> MountTab \<Rightarrow> MountTabDiff" where
  "pass1 oldTab newTab = fold (searchNew oldTab) (entries newTab) NewMountTabDiff"

definition pass2 :: "MountTab \<Rightarrow> MountTab \<Rightarrow> MountTabDiff \<Rightarrow> MountTabDiff" where
  "pass2 oldTab newTab diffTable = fold (searchOld newTab) (entries oldTab) diffTable"

text \<open>\<^verbatim>\<open>&MountTab{}\<close>: the table that replaces a nil argument.\<close>

definition emptyTab :: MountTab where
  "emptyTab = \<lparr>entries = []\<rparr>"

definition GenerateDiff :: "MountTab option \<Rightarrow> MountTab option \<Rightarrow> MountTabDiff" where
  "GenerateDiff oldTab0 newTab0 =
     (let diffTable = NewMountTabDiff;
          oldTab = (case oldTab0 of None \<Rightarrow> emptyTab | Some t \<Rightarrow> t);
          newTab = (case newTab0 of None \<Rightarrow> emptyTab | Some t \<Rightarrow> t);
          oldTabSize = Size oldTab;
          newTabSize = Size newTab
      in if newTabSize = 0 \<and> oldTabSize = 0 then diffTable
         else if oldTabSize = 0 then
           fold (\<lambda>entry d. AddDiffEntry d None (Some entry) MountActionMount)
             (entries newTab) diffTable
         else if newTabSize = 0 then
           fold (\<lambda>entry d. AddDiffEntry d (Some entry) None MountActionUmount)
             (entries oldTab) diffTable
         else pass2 oldTab newTab (pass1 oldTab newTab))"

subsection \<open>The summary accessor\<close>

text \<open>
  \<^verbatim>\<open>ListSources\<close> dereferences \<^verbatim>\<open>diff.oldFs\<close> (for an Umount entry) or \<^verbatim>\<open>diff.newFs\<close>
  (for any other entry) without a nil check: on a nil pointer the program panics, which
  is the result \<open>None\<close> here.
\<close>

definition entrySource :: "Filesystem MountTabDiffEntry \<Rightarrow> string option" where
  "entrySource diff =
     (if action diff = MountActionUmount then map_option Source (oldFs diff)
      else map_option Source (newFs diff))"

text \<open>
  The first loop fills \<^verbatim>\<open>uniqueSources\<close>, a map from strings to the empty struct, that is
  a set of strings.
\<close>

fun collectSources :: "MountTabDiff \<Rightarrow> string set \<Rightarrow> string set option" where
  "collectSources [] uniqueSources = Some uniqueSources"
| "collectSources (diff # md) uniqueSources =
     (case entrySource diff of
        None \<Rightarrow> None
      | Some src \<Rightarrow>
          collectSources md
            (if src \<in> uniqueSources then uniqueSources else insert src uniqueSources))"

text \<open>
  The second loop ranges over the keys of the map in an order the language leaves open
  and \<^verbatim>\<open>sort.Strings\<close> sorts the result in increasing byte-wise lexicographic order (the
  order of strings here): whatever the order of the keys was, the result is the sorted
  list of the set.
\<close>

definition ListSources :: "MountTabDiff \<Rightarrow> string list option" where
  "ListSources md = map_option sorted_list_of_set (collectSources md {})"

subsection \<open>The copying accessors, over a store\<close>

text \<open>
  A store of filesystem entries: the address of an entry is its position in the list,
  and a new variable (\<^verbatim>\<open>fs := *mde.oldFs\<close>, whose address is returned) is a new cell at
  the end. A non-nil pointer of a Go program always points to a live object; an address
  outside the store is not a state of the program, and the accessors answer \<open>None\<close>
  there.
\<close>

type_synonym addr = nat
type_synonym store = "Filesystem list"

definition copyFs :: "store \<Rightarrow> addr option \<Rightarrow> (addr option \<times> store) option" where
  "copyFs h p =
     (case p of
        None \<Rightarrow> Some (None, h)
      | Some a \<Rightarrow> if a < length h then Some (Some (length h), h @ [h ! a]) else None)"

definition GetOldFs :: "store \<Rightarrow> addr MountTabDiffEntry \<Rightarrow> (addr option \<times> store) option" where
  "GetOldFs h mde = copyFs h (oldFs mde)"

definition GetNewFs :: "store \<Rightarrow> addr MountTabDiffEntry \<Rightarrow> (addr option \<times> store) option" where
  "GetNewFs h mde = copyFs h (newFs mde)"

definition GetAction :: "'p MountTabDiffEntry \<Rightarrow> MountAction" where
  "GetAction mde = action mde"

text \<open>What a caller reads through a returned pointer, and a write through it.\<close>

definition deref :: "store \<Rightarrow> addr option \<Rightarrow> Filesystem option" where
  "deref h p = (case p of None \<Rightarrow> None | Some a \<Rightarrow> if a < length h then Some (h ! a) else None)"

definition writeFs :: "store \<Rightarrow> addr option \<Rightarrow> Filesystem \<Rightarrow> store" where
  "writeFs h p v = (case p of None \<Rightarrow> h | Some a \<Rightarrow> h[a := v])"

subsection \<open>Notation for the statements\<close>

text \<open>
  The table a pointer argument stands for, the lookup of an entry's own (Source, Target)
  pair in a table, and the four shapes of diff entry that \<^verbatim>\<open>GenerateDiff\<close> builds.
\<close>

definition tabOf :: "MountTab option \<Rightarrow> MountTab" where
  "tabOf t0 = (case t0 of None \<Rightarrow> emptyTab | Some t \<Rightarrow> t)"

definition unmatched :: "MountTab \<Rightarrow> Filesystem \<Rightarrow> bool" where
  "unmatched tab fs = (Find tab [SourceFilter (Source fs), TargetFilter (Target fs)] = None)"

definition mountEntry :: "Filesystem \<Rightarrow> Filesystem MountTabDiffEntry" where
  "mountEntry nfs = \<lparr>oldFs = None, newFs = Some nfs, action = MountActionMount\<rparr>"

definition umountEntry :: "Filesystem \<Rightarrow> Filesystem MountTabDiffEntry" where
  "umountEntry ofs = \<lparr>oldFs = Some ofs, newFs = None, action = MountActionUmount\<rparr>"

definition moveEntry :: "Filesystem \<Rightarrow> Filesystem \<Rightarrow> Filesystem MountTabDiffEntry" where
  "moveEntry ofs nfs = \<lparr>oldFs = Some ofs, newFs = Some nfs, action = MountActionMove\<rparr>"

definition remountEntry :: "Filesystem \<Rightarrow> Filesystem \<Rightarrow> Filesystem MountTabDiffEntry" where
  "remountEntry ofs nfs = \<lparr>oldFs = Some ofs, newFs = Some nfs, action = MountActionRemount\<rparr>"

definition mkFs :: "int \<Rightarrow> string \<Rightarrow> string \<Rightarrow> string \<Rightarrow> string \<Rightarrow> Filesystem" where
  "mkFs i s t v f = \<lparr>ID = i, Source = s, Target = t, VFSOptions = v, FSOptions = f\<rparr>"

text \<open>
  What the engine maintains for every entry of the diff list, relative to the two tables:
  where the entry's filesystems come from and what the lookups said about them.
\<close>

definition entryInv :: "MountTab \<Rightarrow> MountTab \<Rightarrow> Filesystem MountTabDiffEntry \<Rightarrow> bool" where
  "entryInv ot nt e =
     (case action e of
        MountActionMount \<Rightarrow>
          (\<exists>nfs\<in>set (entries nt). e = mountEntry nfs \<and> unmatched ot nfs)
      | MountActionUmount \<Rightarrow>
          (\<exists>ofs\<in>set (entries ot). e = umountEntry ofs \<and> unmatched nt ofs)
      | MountActionMove \<Rightarrow>
          (\<exists>ofs\<in>set (entries ot). \<exists>nfs\<in>set (entries nt).
             e = moveEntry ofs nfs \<and> ID nfs = ID ofs \<and> Source nfs = Source ofs \<and>
             unmatched ot nfs \<and> unmatched nt ofs)
      | MountActionRemount \<Rightarrow>
          (\<exists>ofs\<in>set (entries ot). \<exists>nfs\<in>set (entries nt).
             e = remountEntry ofs nfs \<and>
             Find ot [SourceFilter (Source nfs), TargetFilter (Target nfs)] = Some ofs \<and>
             (VFSOptions ofs \<noteq> VFSOptions nfs \<or> FSOptions ofs \<noteq> FSOptions nfs)))"

text \<open>
  An entry of the first pass and what the second pass may leave at its position: the
  entry itself, or, for a Mount entry, the entry with \<^verbatim>\<open>oldFs\<close> set to one of the old
  entries \<open>os\<close> and the action changed to Move.
\<close>

definition reclassified ::
  "Filesystem list \<Rightarrow> Filesystem MountTabDiffEntry \<Rightarrow> Filesystem MountTabDiffEntry \<Rightarrow> bool" where
  "reclassified os p a =
     (a = p \<or>
      (action p = MountActionMount \<and>
       (\<exists>ofs\<in>set os. a = p\<lparr>oldFs := Some ofs, action := MountActionMove\<rparr>)))"

text \<open>A pointer of a diff entry that is nil or points into the store.\<close>

definition validPtr :: "store \<Rightarrow> addr option \<Rightarrow> bool" where
  "validPtr h p = (case p of None \<Rightarrow> True | Some a \<Rightarrow> a < length h)"

subsection \<open>Example tables\<close>

text \<open>
  An old and a new table in which the root filesystem is remounted read-only, the mount
  5 moves from /mnt/a to /mnt/b, the mount 7 goes away, and /dev/sdc1 is mounted at two
  new places.
\<close>

definition oldTabEx :: MountTab where
  "oldTabEx = \<lparr>entries =
     [mkFs 1 ''/dev/sda1'' ''/'' ''rw,relatime'' ''rw'',
      mkFs 5 ''/dev/sdb1'' ''/mnt/a'' ''rw'' ''rw'',
      mkFs 7 ''/dev/sdd1'' ''/mnt/d'' ''rw'' ''rw'']\<rparr>"

definition newTabEx :: MountTab where
  "newTabEx = \<lparr>entries =
     [mkFs 9 ''/dev/sdc1'' ''/mnt/c'' ''rw'' ''rw'',
      mkFs 1 ''/dev/sda1'' ''/'' ''ro,relatime'' ''rw'',
      mkFs 5 ''/dev/sdb1'' ''/mnt/b'' ''rw'' ''rw'',
      mkFs 10 ''/dev/sdc1'' ''/mnt/c2'' ''rw'' ''rw'']\<rparr>"

section \<open>Properties\<close>

subsection \<open>Lookups\<close>

lemma Find_pair:
  "Find tab [SourceFilter s, TargetFilter t] =
     List.find (\<lambda>fs. Source fs = s \<and> Target fs = t) (entries tab)"
  by (simp add: Find_def SourceFilter_def TargetFilter_def)

lemma Find_None_iff:
  "Find tab [SourceFilter s, TargetFilter t] = None \<longleftrightarrow>
     (\<forall>fs\<in>set (entries tab). \<not> (Source fs = s \<and> Target fs = t))"
  by (auto simp: Find_pair find_None_iff)

lemma Find_SomeD:
  assumes "Find tab [SourceFilter s, TargetFilter t] = Some fs"
  shows "fs \<in> set (entries tab)" and "Source fs = s" and "Target fs = t"
  using assms by (auto simp: Find_pair find_Some_iff)

subsection \<open>The search for a Mount entry\<close>

lemma gme_bound: "getMountEntry md s i = Some k \<Longrightarrow> k < length md"
  by (induction md arbitrary: k) (auto split: if_splits)

lemma gme_isMountOf: "getMountEntry md s i = Some k \<Longrightarrow> isMountOf (md ! k) s i"
  by (induction md arbitrary: k) (auto split: if_splits)

lemma gme_first: "getMountEntry md s i = Some k \<Longrightarrow> j < k \<Longrightarrow> \<not> isMountOf (md ! j) s i"
  by (induction md arbitrary: k j) (auto split: if_splits simp: nth_Cons split: nat.splits)

lemma gme_None_iff: "getMountEntry md s i = None \<longleftrightarrow> (\<forall>e\<in>set md. \<not> isMountOf e s i)"
  by (induction md) auto

lemma gme_append_none:
  "\<forall>e\<in>set md'. \<not> isMountOf e s i \<Longrightarrow> getMountEntry (md @ md') s i = getMountEntry md s i"
  by (induction md) (auto simp: gme_None_iff)

lemma gme_update:
  "k < length md \<Longrightarrow> \<not> isMountOf (md ! k) s i \<Longrightarrow> \<not> isMountOf x s i \<Longrightarrow>
     getMountEntry (md[k := x]) s i = getMountEntry md s i"
  by (induction md arbitrary: k) (auto split: nat.splits simp: nth_Cons)

lemma gme_Some_iff:
  "getMountEntry md s i = Some k \<longleftrightarrow>
     k < length md \<and> isMountOf (md ! k) s i \<and> (\<forall>j<k. \<not> isMountOf (md ! j) s i)"
proof
  assume "getMountEntry md s i = Some k"
  then show "k < length md \<and> isMountOf (md ! k) s i \<and> (\<forall>j<k. \<not> isMountOf (md ! j) s i)"
    using gme_bound gme_isMountOf gme_first by blast
next
  assume r: "k < length md \<and> isMountOf (md ! k) s i \<and> (\<forall>j<k. \<not> isMountOf (md ! j) s i)"
  then have "md ! k \<in> set md" by simp
  with r have "getMountEntry md s i \<noteq> None" by (auto simp: gme_None_iff)
  then obtain k' where k': "getMountEntry md s i = Some k'" by auto
  have "\<not> k' < k" using r gme_isMountOf[OF k'] by blast
  moreover have "\<not> k < k'" using r gme_first[OF k'] by blast
  ultimately show "getMountEntry md s i = Some k" using k' by simp
qed

lemma searchOld_cases [consumes 0, case_names matched umount move]:
  obtains
    (matched) "\<not> unmatched nt ofs" "searchOld nt ofs D = D"
  | (umount) "unmatched nt ofs" "getMountEntry D (Source ofs) (ID ofs) = None"
      "searchOld nt ofs D = D @ [umountEntry ofs]"
  | (move) k nfs where "unmatched nt ofs" "getMountEntry D (Source ofs) (ID ofs) = Some k"
      "k < length D" "action (D ! k) = MountActionMount" "newFs (D ! k) = Some nfs"
      "ID nfs = ID ofs" "Source nfs = Source ofs"
      "searchOld nt ofs D = D[k := (D ! k)\<lparr>oldFs := Some ofs, action := MountActionMove\<rparr>]"
proof (cases "Find nt [SourceFilter (Source ofs), TargetFilter (Target ofs)]")
  case (Some a)
  then show ?thesis using matched by (simp add: unmatched_def searchOld_def)
next
  case None
  show ?thesis
  proof (cases "getMountEntry D (Source ofs) (ID ofs)")
    case N: None
    then show ?thesis using umount None
      by (simp add: unmatched_def searchOld_def AddDiffEntry_def umountEntry_def)
  next
    case (Some k)
    have "isMountOf (D ! k) (Source ofs) (ID ofs)" by (rule gme_isMountOf[OF Some])
    then obtain nfs where "action (D ! k) = MountActionMount" "newFs (D ! k) = Some nfs"
      "ID nfs = ID ofs" "Source nfs = Source ofs"
      by (auto simp: isMountOf_def split: option.splits)
    then show ?thesis using move[of k nfs] None Some gme_bound[OF Some]
      by (simp add: unmatched_def searchOld_def)
  qed
qed

lemma searchNew_eq:
  "searchNew ot nfs D = D @
     (case Find ot [SourceFilter (Source nfs), TargetFilter (Target nfs)] of
        None \<Rightarrow> [mountEntry nfs]
      | Some ofs \<Rightarrow>
          if VFSOptions ofs \<noteq> VFSOptions nfs \<or> FSOptions ofs \<noteq> FSOptions nfs
          then [remountEntry ofs nfs] else [])"
  by (simp add: searchNew_def AddDiffEntry_def mountEntry_def remountEntry_def split: option.splits)

lemma fold_searchNew:
  "fold (searchNew ot) ns D = D @ concat (map (\<lambda>nfs. searchNew ot nfs []) ns)"
proof (induction ns arbitrary: D)
  case Nil
  show ?case by simp
next
  case (Cons n ns)
  have "searchNew ot n D = D @ searchNew ot n []" by (simp add: searchNew_eq)
  then show ?case by (simp add: Cons.IH)
qed

lemma fold_Add_mount:
  "fold (\<lambda>entry d. AddDiffEntry d None (Some entry) MountActionMount) xs D = D @ map mountEntry xs"
  by (induction xs arbitrary: D) (simp_all add: AddDiffEntry_def mountEntry_def)

lemma fold_Add_umount:
  "fold (\<lambda>entry d. AddDiffEntry d (Some entry) None MountActionUmount) xs D = D @ map umountEntry xs"
  by (induction xs arbitrary: D) (simp_all add: AddDiffEntry_def umountEntry_def)

lemma pass1_old_empty:
  assumes "entries ot = []"
  shows "pass1 ot nt = map mountEntry (entries nt)"
proof -
  have "searchNew ot n [] = [mountEntry n]" for n
    using assms by (simp add: searchNew_eq Find_pair)
  then show ?thesis by (simp add: pass1_def fold_searchNew NewMountTabDiff_def)
qed

lemma fold_searchOld_new_empty:
  assumes "entries nt = []" and "\<forall>e\<in>set D. action e \<noteq> MountActionMount"
  shows "fold (searchOld nt) os D = D @ map umountEntry os"
  using assms(2)
proof (induction os arbitrary: D)
  case Nil
  show ?case by simp
next
  case (Cons ofs os)
  have "getMountEntry D (Source ofs) (ID ofs) = None"
    using Cons.prems by (auto simp: gme_None_iff isMountOf_def)
  then have step: "searchOld nt ofs D = D @ [umountEntry ofs]"
    using assms(1) by (simp add: searchOld_def Find_pair AddDiffEntry_def umountEntry_def)
  have "\<forall>e\<in>set (D @ [umountEntry ofs]). action e \<noteq> MountActionMount"
    using Cons.prems by (simp add: umountEntry_def)
  from Cons.IH[OF this] show ?case by (simp add: step)
qed

lemma GenerateDiff_two_pass:
  "GenerateDiff ot0 nt0 = pass2 (tabOf ot0) (tabOf nt0) (pass1 (tabOf ot0) (tabOf nt0))"
proof -
  define ot where "ot = tabOf ot0"
  define nt where "nt = tabOf nt0"
  have unfold: "GenerateDiff ot0 nt0 =
     (if entries nt = [] \<and> entries ot = [] then []
      else if entries ot = [] then map mountEntry (entries nt)
      else if entries nt = [] then map umountEntry (entries ot)
      else pass2 ot nt (pass1 ot nt))"
    by (simp add: GenerateDiff_def Let_def Size_def NewMountTabDiff_def fold_Add_mount
        fold_Add_umount ot_def nt_def tabOf_def)
  have a: "entries ot = [] \<Longrightarrow> pass2 ot nt (pass1 ot nt) = map mountEntry (entries nt)"
    by (simp add: pass2_def pass1_old_empty)
  have b: "entries nt = [] \<Longrightarrow> pass2 ot nt (pass1 ot nt) = map umountEntry (entries ot)"
    by (simp add: pass2_def pass1_def NewMountTabDiff_def fold_searchOld_new_empty)
  show ?thesis using a b unfolding unfold ot_def[symmetric] nt_def[symmetric] by auto
qed

subsection \<open>Degenerate cases\<close>

text \<open>
  Claim C4. \<^verbatim>\<open>GenerateDiff\<close> has no failing path (the model is a total function with no
  error value, as the source has neither a panic nor an error return on tables of
  entries). A nil table argument gives the same result as any table without entries, in
  either position. With both tables nil or empty the diff list is empty; with an empty
  or nil old table it is one Mount entry per entry of the new table, in table order,
  each with \<^verbatim>\<open>oldFs\<close> nil; with an empty or nil new table it is one Umount entry per entry
  of the old table, in table order, each with \<^verbatim>\<open>newFs\<close> nil.
\<close>

theorem GenerateDiff_degenerate:
  "(entries t = [] \<longrightarrow>
      GenerateDiff None x = GenerateDiff (Some t) x \<and>
      GenerateDiff x None = GenerateDiff x (Some t)) \<and>
   GenerateDiff None None = [] \<and>
   (entries ot = [] \<and> entries nt = [] \<longrightarrow> GenerateDiff (Some ot) (Some nt) = []) \<and>
   (entries ot = [] \<longrightarrow> GenerateDiff (Some ot) (Some nt) = map mountEntry (entries nt)) \<and>
   GenerateDiff None (Some nt) = map mountEntry (entries nt) \<and>
   (entries nt = [] \<longrightarrow> GenerateDiff (Some ot) (Some nt) = map umountEntry (entries ot)) \<and>
   GenerateDiff (Some ot) None = map umountEntry (entries ot)"
proof -
  have unfold: "GenerateDiff a b =
     (if entries (tabOf b) = [] \<and> entries (tabOf a) = [] then []
      else if entries (tabOf a) = [] then map mountEntry (entries (tabOf b))
      else if entries (tabOf b) = [] then map umountEntry (entries (tabOf a))
      else pass2 (tabOf a) (tabOf b) (pass1 (tabOf a) (tabOf b)))" for a b
    by (simp add: GenerateDiff_def Let_def Size_def NewMountTabDiff_def fold_Add_mount
        fold_Add_umount tabOf_def)
  have t: "entries t = [] \<Longrightarrow> t = emptyTab"
    by (simp add: emptyTab_def)
  have e: "entries emptyTab = []" by (simp add: emptyTab_def)
  have s: "tabOf (Some u) = u" "tabOf None = emptyTab" for u by (simp_all add: tabOf_def)
  show ?thesis
    using t by (auto simp: unfold s e)
qed

theorem GenerateDiff_degenerate_witness:
  "entries \<lparr>entries = []\<rparr> = [] \<and>
   GenerateDiff None (Some \<lparr>entries = [mkFs 1 ''/dev/sda1'' ''/'' ''rw'' ''x'', mkFs 2 ''/dev/sdb1'' ''/mnt/a'' ''rw'' ''y'']\<rparr>)
     = GenerateDiff (Some \<lparr>entries = []\<rparr>) (Some \<lparr>entries = [mkFs 1 ''/dev/sda1'' ''/'' ''rw'' ''x'', mkFs 2 ''/dev/sdb1'' ''/mnt/a'' ''rw'' ''y'']\<rparr>) \<and>
   GenerateDiff (Some \<lparr>entries = []\<rparr>) (Some \<lparr>entries = [mkFs 1 ''/dev/sda1'' ''/'' ''rw'' ''x'', mkFs 2 ''/dev/sdb1'' ''/mnt/a'' ''rw'' ''y'']\<rparr>)
     = [mountEntry (mkFs 1 ''/dev/sda1'' ''/'' ''rw'' ''x''), mountEntry (mkFs 2 ''/dev/sdb1'' ''/mnt/a'' ''rw'' ''y'')] \<and>
   GenerateDiff (Some \<lparr>entries = [mkFs 1 ''/dev/sda1'' ''/'' ''rw'' ''x'', mkFs 2 ''/dev/sdb1'' ''/mnt/a'' ''rw'' ''y'']\<rparr>) None
     = GenerateDiff (Some \<lparr>entries = [mkFs 1 ''/dev/sda1'' ''/'' ''rw'' ''x'', mkFs 2 ''/dev/sdb1'' ''/mnt/a'' ''rw'' ''y'']\<rparr>) (Some \<lparr>entries = []\<rparr>) \<and>
   GenerateDiff (Some \<lparr>entries = [mkFs 1 ''/dev/sda1'' ''/'' ''rw'' ''x'', mkFs 2 ''/dev/sdb1'' ''/mnt/a'' ''rw'' ''y'']\<rparr>) (Some \<lparr>entries = []\<rparr>)
     = [umountEntry (mkFs 1 ''/dev/sda1'' ''/'' ''rw'' ''x''), umountEntry (mkFs 2 ''/dev/sdb1'' ''/mnt/a'' ''rw'' ''y'')]"
  using GenerateDiff_degenerate
    [where t = "\<lparr>entries = []\<rparr>" and x = "Some \<lparr>entries = [mkFs 1 ''/dev/sda1'' ''/'' ''rw'' ''x'', mkFs 2 ''/dev/sdb1'' ''/mnt/a'' ''rw'' ''y'']\<rparr>"
       and ot = "\<lparr>entries = []\<rparr>" and nt = "\<lparr>entries = [mkFs 1 ''/dev/sda1'' ''/'' ''rw'' ''x'', mkFs 2 ''/dev/sdb1'' ''/mnt/a'' ''rw'' ''y'']\<rparr>"]
    GenerateDiff_degenerate
    [where t = "\<lparr>entries = []\<rparr>" and x = "Some \<lparr>entries = [mkFs 1 ''/dev/sda1'' ''/'' ''rw'' ''x'', mkFs 2 ''/dev/sdb1'' ''/mnt/a'' ''rw'' ''y'']\<rparr>"
       and ot = "\<lparr>entries = [mkFs 1 ''/dev/sda1'' ''/'' ''rw'' ''x'', mkFs 2 ''/dev/sdb1'' ''/mnt/a'' ''rw'' ''y'']\<rparr>" and nt = "\<lparr>entries = []\<rparr>"]
  by simp

subsection \<open>The first pass\<close>

text \<open>
  Claim C3. The general case of \<^verbatim>\<open>GenerateDiff\<close> is the second pass run on the result of
  the first (and the short cuts for empty tables give the same list), and the first pass
  contributes, for each entry of the new table in turn: a Mount entry with \<^verbatim>\<open>oldFs\<close> nil
  when no entry of the old table has the same Source and Target; nothing when the first
  such old entry has the same VFS options and the same FS options; and otherwise a
  Remount entry that holds this old entry and the new one.
\<close>

theorem pass1_classification:
  "GenerateDiff (Some oldTab) (Some newTab) = pass2 oldTab newTab (pass1 oldTab newTab) \<and>
   pass1 oldTab newTab =
     concat (map
       (\<lambda>nfs. case List.find (\<lambda>ofs. Source ofs = Source nfs \<and> Target ofs = Target nfs)
                      (entries oldTab) of
                 None \<Rightarrow> [\<lparr>oldFs = None, newFs = Some nfs, action = MountActionMount\<rparr>]
               | Some ofs \<Rightarrow>
                   if VFSOptions ofs = VFSOptions nfs \<and> FSOptions ofs = FSOptions nfs then []
                   else [\<lparr>oldFs = Some ofs, newFs = Some nfs, action = MountActionRemount\<rparr>])
       (entries newTab))"
proof -
  have "GenerateDiff (Some oldTab) (Some newTab) = pass2 oldTab newTab (pass1 oldTab newTab)"
    using GenerateDiff_two_pass[of "Some oldTab" "Some newTab"] by (simp add: tabOf_def)
  moreover have "searchNew oldTab nfs [] =
      (case List.find (\<lambda>ofs. Source ofs = Source nfs \<and> Target ofs = Target nfs)
                      (entries oldTab) of
                 None \<Rightarrow> [\<lparr>oldFs = None, newFs = Some nfs, action = MountActionMount\<rparr>]
               | Some ofs \<Rightarrow>
                   if VFSOptions ofs = VFSOptions nfs \<and> FSOptions ofs = FSOptions nfs then []
                   else [\<lparr>oldFs = Some ofs, newFs = Some nfs, action = MountActionRemount\<rparr>])" for nfs
    by (simp add: searchNew_eq Find_pair mountEntry_def remountEntry_def split: option.splits)
  ultimately show ?thesis
    by (simp add: pass1_def fold_searchNew NewMountTabDiff_def)
qed

theorem pass1_classification_witness:
  "pass1 \<lparr>entries = [mkFs 1 ''/dev/sda1'' ''/'' ''rw,relatime'' ''x'', mkFs 2 ''/dev/sdb1'' ''/mnt/a'' ''rw'' ''y'']\<rparr>
         \<lparr>entries = [mkFs 1 ''/dev/sda1'' ''/'' ''ro,relatime'' ''x'', mkFs 2 ''/dev/sdb1'' ''/mnt/a'' ''rw'' ''y'',
                     mkFs 3 ''/dev/sdc1'' ''/mnt/c'' ''rw'' ''z'']\<rparr>
   = [remountEntry (mkFs 1 ''/dev/sda1'' ''/'' ''rw,relatime'' ''x'') (mkFs 1 ''/dev/sda1'' ''/'' ''ro,relatime'' ''x''),
      mountEntry (mkFs 3 ''/dev/sdc1'' ''/mnt/c'' ''rw'' ''z'')]"
  using pass1_classification
    [of "\<lparr>entries = [mkFs 1 ''/dev/sda1'' ''/'' ''rw,relatime'' ''x'', mkFs 2 ''/dev/sdb1'' ''/mnt/a'' ''rw'' ''y'']\<rparr>"
        "\<lparr>entries = [mkFs 1 ''/dev/sda1'' ''/'' ''ro,relatime'' ''x'', mkFs 2 ''/dev/sdb1'' ''/mnt/a'' ''rw'' ''y'',
                     mkFs 3 ''/dev/sdc1'' ''/mnt/c'' ''rw'' ''z'']\<rparr>"]
  by (simp add: mkFs_def mountEntry_def remountEntry_def)

subsection \<open>Running the engine on the example\<close>

lemmas entry_defs = mountEntry_def umountEntry_def moveEntry_def remountEntry_def

lemmas run_defs = GenerateDiff_def Let_def Size_def NewMountTabDiff_def AddDiffEntry_def
  pass1_def pass2_def searchNew_def searchOld_def Find_def SourceFilter_def TargetFilter_def
  isMountOf_def mkFs_def entry_defs

lemma GenerateDiff_example:
  "GenerateDiff (Some oldTabEx) (Some newTabEx) =
     [mountEntry (mkFs 9 ''/dev/sdc1'' ''/mnt/c'' ''rw'' ''rw''),
      remountEntry (mkFs 1 ''/dev/sda1'' ''/'' ''rw,relatime'' ''rw'')
        (mkFs 1 ''/dev/sda1'' ''/'' ''ro,relatime'' ''rw''),
      moveEntry (mkFs 5 ''/dev/sdb1'' ''/mnt/a'' ''rw'' ''rw'')
        (mkFs 5 ''/dev/sdb1'' ''/mnt/b'' ''rw'' ''rw''),
      mountEntry (mkFs 10 ''/dev/sdc1'' ''/mnt/c2'' ''rw'' ''rw''),
      umountEntry (mkFs 7 ''/dev/sdd1'' ''/mnt/d'' ''rw'' ''rw'')]"
  by (simp add: run_defs oldTabEx_def newTabEx_def)

subsection \<open>What every entry of the diff list records\<close>

lemma entryInv_searchNew:
  assumes "nfs \<in> set (entries nt)" and "e \<in> set (searchNew ot nfs [])"
  shows "entryInv ot nt e"
proof (cases "Find ot [SourceFilter (Source nfs), TargetFilter (Target nfs)]")
  case None
  then have "e = mountEntry nfs" using assms(2) by (simp add: searchNew_eq)
  then show ?thesis using assms(1) None
    by (auto simp: entryInv_def unmatched_def mountEntry_def)
next
  case (Some ofs)
  then have e: "e = remountEntry ofs nfs"
    and d: "VFSOptions ofs \<noteq> VFSOptions nfs \<or> FSOptions ofs \<noteq> FSOptions nfs"
    using assms(2) by (auto simp: searchNew_eq split: if_splits)
  have "ofs \<in> set (entries ot)" using Find_SomeD(1)[OF Some] .
  then show ?thesis using e d assms(1) Some
    by (auto simp: entryInv_def remountEntry_def)
qed

lemma entryInv_pass1:
  assumes "e \<in> set (pass1 ot nt)"
  shows "entryInv ot nt e"
proof -
  from assms obtain nfs where "nfs \<in> set (entries nt)" "e \<in> set (searchNew ot nfs [])"
    by (auto simp: pass1_def fold_searchNew NewMountTabDiff_def)
  then show ?thesis by (rule entryInv_searchNew)
qed

lemma entryInv_searchOld:
  assumes o: "ofs \<in> set (entries ot)"
    and D: "\<forall>e\<in>set D. entryInv ot nt e"
  shows "\<forall>e\<in>set (searchOld nt ofs D). entryInv ot nt e"
proof (cases rule: searchOld_cases[of nt ofs D])
  case matched
  then show ?thesis using D by simp
next
  case umount
  have "entryInv ot nt (umountEntry ofs)"
    using o umount(1) by (auto simp: entryInv_def umountEntry_def)
  then show ?thesis using D umount(3) by simp
next
  case (move k nfs)
  have "entryInv ot nt (D ! k)" using D move(3) by simp
  then have "\<exists>n\<in>set (entries nt). D ! k = mountEntry n \<and> unmatched ot n"
    using move(4) by (simp add: entryInv_def)
  then have n: "nfs \<in> set (entries nt)" "unmatched ot nfs" "D ! k = mountEntry nfs"
    using move(5) by (auto simp: mountEntry_def)
  have upd: "(D ! k)\<lparr>oldFs := Some ofs, action := MountActionMove\<rparr> = moveEntry ofs nfs"
    using n(3) by (simp add: mountEntry_def moveEntry_def)
  have "entryInv ot nt (moveEntry ofs nfs)"
    using o n move(1,6,7) by (auto simp: entryInv_def moveEntry_def)
  moreover have "set (searchOld nt ofs D) \<subseteq> insert (moveEntry ofs nfs) (set D)"
    unfolding move(8) upd by (rule set_update_subset_insert)
  ultimately show ?thesis using D by auto
qed

lemma entryInv_fold_searchOld:
  assumes "set os \<subseteq> set (entries ot)" and "\<forall>e\<in>set D. entryInv ot nt e"
  shows "\<forall>e\<in>set (fold (searchOld nt) os D). entryInv ot nt e"
  using assms
proof (induction os arbitrary: D)
  case Nil
  then show ?case by simp
next
  case (Cons ofs os)
  have "\<forall>e\<in>set (searchOld nt ofs D). entryInv ot nt e"
    using Cons.prems by (intro entryInv_searchOld) auto
  with Cons.IH[of "searchOld nt ofs D"] Cons.prems(1) show ?case by simp
qed

lemma GenerateDiff_entryInv:
  assumes "e \<in> set (GenerateDiff ot0 nt0)"
  shows "entryInv (tabOf ot0) (tabOf nt0) e"
proof -
  have "\<forall>e\<in>set (pass1 (tabOf ot0) (tabOf nt0)). entryInv (tabOf ot0) (tabOf nt0) e"
    using entryInv_pass1 by blast
  then have "\<forall>e\<in>set (pass2 (tabOf ot0) (tabOf nt0) (pass1 (tabOf ot0) (tabOf nt0))).
      entryInv (tabOf ot0) (tabOf nt0) e"
    unfolding pass2_def by (intro entryInv_fold_searchOld) simp_all
  then show ?thesis using assms by (simp add: GenerateDiff_two_pass)
qed

text \<open>
  Claim C7. In a list returned by \<^verbatim>\<open>GenerateDiff\<close>, a Mount entry has \<^verbatim>\<open>oldFs\<close> nil and
  \<^verbatim>\<open>newFs\<close> set, an Umount entry has \<^verbatim>\<open>oldFs\<close> set and \<^verbatim>\<open>newFs\<close> nil, and a Move or
  Remount entry has both set.
\<close>

theorem GenerateDiff_presence:
  "\<forall>e\<in>set (GenerateDiff oldTab newTab).
     (action e = MountActionMount \<longrightarrow> oldFs e = None \<and> newFs e \<noteq> None) \<and>
     (action e = MountActionUmount \<longrightarrow> oldFs e \<noteq> None \<and> newFs e = None) \<and>
     (action e = MountActionMove \<or> action e = MountActionRemount \<longrightarrow>
        oldFs e \<noteq> None \<and> newFs e \<noteq> None)"
proof
  fix e assume "e \<in> set (GenerateDiff oldTab newTab)"
  then have "entryInv (tabOf oldTab) (tabOf newTab) e" by (rule GenerateDiff_entryInv)
  then show "(action e = MountActionMount \<longrightarrow> oldFs e = None \<and> newFs e \<noteq> None) \<and>
     (action e = MountActionUmount \<longrightarrow> oldFs e \<noteq> None \<and> newFs e = None) \<and>
     (action e = MountActionMove \<or> action e = MountActionRemount \<longrightarrow>
        oldFs e \<noteq> None \<and> newFs e \<noteq> None)"
    by (cases "action e") (auto simp: entryInv_def entry_defs)
qed

theorem GenerateDiff_presence_witness:
  "GenerateDiff (Some oldTabEx) (Some newTabEx) =
     [mountEntry (mkFs 9 ''/dev/sdc1'' ''/mnt/c'' ''rw'' ''rw''),
      remountEntry (mkFs 1 ''/dev/sda1'' ''/'' ''rw,relatime'' ''rw'')
        (mkFs 1 ''/dev/sda1'' ''/'' ''ro,relatime'' ''rw''),
      moveEntry (mkFs 5 ''/dev/sdb1'' ''/mnt/a'' ''rw'' ''rw'')
        (mkFs 5 ''/dev/sdb1'' ''/mnt/b'' ''rw'' ''rw''),
      mountEntry (mkFs 10 ''/dev/sdc1'' ''/mnt/c2'' ''rw'' ''rw''),
      umountEntry (mkFs 7 ''/dev/sdd1'' ''/mnt/d'' ''rw'' ''rw'')] \<and>
   list_all
     (\<lambda>e. (action e = MountActionMount \<longrightarrow> oldFs e = None \<and> newFs e \<noteq> None) \<and>
          (action e = MountActionUmount \<longrightarrow> oldFs e \<noteq> None \<and> newFs e = None) \<and>
          (action e = MountActionMove \<or> action e = MountActionRemount \<longrightarrow>
             oldFs e \<noteq> None \<and> newFs e \<noteq> None))
     (GenerateDiff (Some oldTabEx) (Some newTabEx))"
proof
  show "GenerateDiff (Some oldTabEx) (Some newTabEx) =
     [mountEntry (mkFs 9 ''/dev/sdc1'' ''/mnt/c'' ''rw'' ''rw''),
      remountEntry (mkFs 1 ''/dev/sda1'' ''/'' ''rw,relatime'' ''rw'')
        (mkFs 1 ''/dev/sda1'' ''/'' ''ro,relatime'' ''rw''),
      moveEntry (mkFs 5 ''/dev/sdb1'' ''/mnt/a'' ''rw'' ''rw'')
        (mkFs 5 ''/dev/sdb1'' ''/mnt/b'' ''rw'' ''rw''),
      mountEntry (mkFs 10 ''/dev/sdc1'' ''/mnt/c2'' ''rw'' ''rw''),
      umountEntry (mkFs 7 ''/dev/sdd1'' ''/mnt/d'' ''rw'' ''rw'')]"
    by (rule GenerateDiff_example)
  show "list_all
     (\<lambda>e. (action e = MountActionMount \<longrightarrow> oldFs e = None \<and> newFs e \<noteq> None) \<and>
          (action e = MountActionUmount \<longrightarrow> oldFs e \<noteq> None \<and> newFs e = None) \<and>
          (action e = MountActionMove \<or> action e = MountActionRemount \<longrightarrow>
             oldFs e \<noteq> None \<and> newFs e \<noteq> None))
     (GenerateDiff (Some oldTabEx) (Some newTabEx))"
    unfolding list_all_iff by (rule GenerateDiff_presence)
qed

text \<open>
  Claim C10. In a list returned by \<^verbatim>\<open>GenerateDiff\<close>, a Move entry has both filesystems
  set, with the same identifier and the same Source, and with different Targets. The
  Targets differ for all tables: the new entry was looked up in the old table by its
  (Source, Target) pair and not found, and the old entry has the same Source; so the
  proviso of the claim, that a table has each (Source, Target) pair at most once, is not
  needed.
\<close>

theorem GenerateDiff_move_fields:
  "\<forall>e\<in>set (GenerateDiff oldTab newTab). action e = MountActionMove \<longrightarrow>
     (\<exists>ofs nfs. oldFs e = Some ofs \<and> newFs e = Some nfs \<and>
        ID ofs = ID nfs \<and> Source ofs = Source nfs \<and> Target ofs \<noteq> Target nfs)"
proof (intro ballI impI)
  fix e assume i: "e \<in> set (GenerateDiff oldTab newTab)" and m: "action e = MountActionMove"
  from i have "entryInv (tabOf oldTab) (tabOf newTab) e" by (rule GenerateDiff_entryInv)
  with m obtain ofs nfs where f: "ofs \<in> set (entries (tabOf oldTab))"
    "e = moveEntry ofs nfs" "ID nfs = ID ofs" "Source nfs = Source ofs"
    "unmatched (tabOf oldTab) nfs"
    by (auto simp: entryInv_def)
  have "Target ofs \<noteq> Target nfs"
    using f(1,4,5) by (auto simp: unmatched_def Find_None_iff)
  then show "\<exists>ofs nfs. oldFs e = Some ofs \<and> newFs e = Some nfs \<and>
        ID ofs = ID nfs \<and> Source ofs = Source nfs \<and> Target ofs \<noteq> Target nfs"
    using f by (simp add: moveEntry_def)
qed

theorem GenerateDiff_move_fields_witness:
  "moveEntry (mkFs 5 ''/dev/sdb1'' ''/mnt/a'' ''rw'' ''rw'') (mkFs 5 ''/dev/sdb1'' ''/mnt/b'' ''rw'' ''rw'')
     \<in> set (GenerateDiff (Some oldTabEx) (Some newTabEx)) \<and>
   list_all
     (\<lambda>e. action e = MountActionMove \<longrightarrow>
          (\<exists>ofs nfs. oldFs e = Some ofs \<and> newFs e = Some nfs \<and>
             ID ofs = ID nfs \<and> Source ofs = Source nfs \<and> Target ofs \<noteq> Target nfs))
     (GenerateDiff (Some oldTabEx) (Some newTabEx))"
proof
  show "moveEntry (mkFs 5 ''/dev/sdb1'' ''/mnt/a'' ''rw'' ''rw'') (mkFs 5 ''/dev/sdb1'' ''/mnt/b'' ''rw'' ''rw'')
     \<in> set (GenerateDiff (Some oldTabEx) (Some newTabEx))"
    by (simp add: GenerateDiff_example)
  show "list_all
     (\<lambda>e. action e = MountActionMove \<longrightarrow>
          (\<exists>ofs nfs. oldFs e = Some ofs \<and> newFs e = Some nfs \<and>
             ID ofs = ID nfs \<and> Source ofs = Source nfs \<and> Target ofs \<noteq> Target nfs))
     (GenerateDiff (Some oldTabEx) (Some newTabEx))"
    unfolding list_all_iff by (rule GenerateDiff_move_fields)
qed

subsection \<open>The second pass\<close>

lemma reclassified_refl: "reclassified os p p"
  by (simp add: reclassified_def)

lemma reclassified_mono: "reclassified os p a \<Longrightarrow> set os \<subseteq> set os' \<Longrightarrow> reclassified os' p a"
  by (auto simp: reclassified_def)

lemma reclassified_same_action: "reclassified os p a \<Longrightarrow> action a = MountActionMount \<Longrightarrow> a = p"
  by (auto simp: reclassified_def)

lemma reclassified_not_mount: "reclassified os p a \<Longrightarrow> action p \<noteq> MountActionMount \<Longrightarrow> a = p"
  by (auto simp: reclassified_def)

lemma reclassified_newFs: "reclassified os p a \<Longrightarrow> newFs a = newFs p"
  by (auto simp: reclassified_def)

lemma pass2_shape:
  "\<exists>A us. fold (searchOld nt) os D = A @ map umountEntry us \<and> subseq us os \<and>
     list_all2 (reclassified os) D A"
proof (induction os rule: rev_induct)
  case Nil
  have "list_all2 (reclassified []) D D"
    by (simp add: list_all2_conv_all_nth reclassified_refl)
  then show ?case by auto
next
  case (snoc ofs os)
  then obtain A us where X: "fold (searchOld nt) os D = A @ map umountEntry us"
    and sub: "subseq us os" and rel: "list_all2 (reclassified os) D A"
    by blast
  define X where "X = A @ map umountEntry us"
  have f: "fold (searchOld nt) (os @ [ofs]) D = searchOld nt ofs X"
    by (simp add: X X_def)
  have rel': "list_all2 (reclassified (os @ [ofs])) D A"
    using rel by (rule list_all2_mono) (auto intro: reclassified_mono)
  have len: "length A = length D" using rel by (simp add: list_all2_lengthD)
  show ?case
  proof (cases rule: searchOld_cases[of nt ofs X])
    case matched
    have "subseq us (os @ [ofs])" using sub by (rule subseq_rev_drop_many)
    then show ?thesis using f matched(2) rel' X_def by auto
  next
    case umount
    have "searchOld nt ofs X = A @ map umountEntry (us @ [ofs])"
      using umount(3) by (simp add: X_def)
    moreover have "subseq (us @ [ofs]) (os @ [ofs])" using sub by simp
    ultimately show ?thesis using f rel' by metis
  next
    case (move k nfs)
    have kA: "k < length A"
    proof (rule ccontr)
      assume "\<not> k < length A"
      then have "X ! k = map umountEntry us ! (k - length A)" "k - length A < length us"
        using move(3) by (auto simp: X_def nth_append)
      then have "action (X ! k) = MountActionUmount" by (simp add: umountEntry_def)
      with move(4) show False by simp
    qed
    then have Xk: "X ! k = A ! k" by (simp add: X_def nth_append)
    have "reclassified os (D ! k) (A ! k)"
      using rel kA len by (simp add: list_all2_conv_all_nth)
    then have AD: "A ! k = D ! k"
      using move(4) Xk by (auto dest: reclassified_same_action)
    define e where "e = (D ! k)\<lparr>oldFs := Some ofs, action := MountActionMove\<rparr>"
    have "reclassified (os @ [ofs]) (D ! k) e"
      using move(4) Xk AD by (auto simp: reclassified_def e_def)
    with rel' have "list_all2 (reclassified (os @ [ofs])) (D[k := D ! k]) (A[k := e])"
      by (rule list_all2_update_cong)
    then have r: "list_all2 (reclassified (os @ [ofs])) D (A[k := e])" by simp
    have "searchOld nt ofs X = A[k := e] @ map umountEntry us"
      using move(8) kA Xk AD by (simp add: X_def e_def list_update_append1)
    moreover have "subseq us (os @ [ofs])" using sub by (rule subseq_rev_drop_many)
    ultimately show ?thesis using f r by metis
  qed
qed

lemma fold_searchOld_stable:
  assumes "k < length D" and "action (D ! k) \<noteq> MountActionMount"
  shows "k < length (fold (searchOld nt) os D) \<and> fold (searchOld nt) os D ! k = D ! k"
proof -
  obtain A us where X: "fold (searchOld nt) os D = A @ map umountEntry us"
    and rel: "list_all2 (reclassified os) D A"
    using pass2_shape by blast
  have len: "length A = length D" using rel by (simp add: list_all2_lengthD)
  have "reclassified os (D ! k) (A ! k)"
    using rel assms(1) by (simp add: list_all2_conv_all_nth)
  then have "A ! k = D ! k" using assms(2) by (rule reclassified_not_mount)
  then show ?thesis using X len assms(1) by (simp add: nth_append)
qed

lemma gme_searchOld_other:
  assumes "ID ofs \<noteq> i"
  shows "getMountEntry (searchOld nt ofs D) s i = getMountEntry D s i"
proof (cases rule: searchOld_cases[of nt ofs D])
  case matched
  then show ?thesis by simp
next
  case umount
  have "\<not> isMountOf (umountEntry ofs) s i" by (simp add: isMountOf_def umountEntry_def)
  then show ?thesis using umount(3) by (simp add: gme_append_none)
next
  case (move k nfs)
  have "\<not> isMountOf (D ! k) s i" using move(5,6) assms by (simp add: isMountOf_def)
  moreover have "\<not> isMountOf ((D ! k)\<lparr>oldFs := Some ofs, action := MountActionMove\<rparr>) s i"
    by (simp add: isMountOf_def)
  ultimately show ?thesis using move(3,8) by (simp add: gme_update)
qed

lemma gme_fold_searchOld_other:
  assumes "i \<notin> ID ` set os"
  shows "getMountEntry (fold (searchOld nt) os D) s i = getMountEntry D s i"
  using assms
proof (induction os arbitrary: D)
  case Nil
  show ?case by simp
next
  case (Cons ofs os)
  then have "ID ofs \<noteq> i" "i \<notin> ID ` set os" by auto
  then show ?case using Cons.IH[of "searchOld nt ofs D"] by (simp add: gme_searchOld_other)
qed

lemma searchNew_newFs:
  "map newFs (searchNew ot n []) = (if searchNew ot n [] = [] then [] else [Some n])"
  by (simp add: searchNew_eq entry_defs split: option.splits)

lemma pass1_newFs:
  "map newFs (pass1 ot nt) = map Some (filter (\<lambda>n. searchNew ot n [] \<noteq> []) (entries nt))"
proof -
  have "map newFs (concat (map (\<lambda>n. searchNew ot n []) ns)) =
      map Some (filter (\<lambda>n. searchNew ot n [] \<noteq> []) ns)" for ns
    by (induction ns) (simp_all add: searchNew_newFs)
  then show ?thesis by (simp add: pass1_def fold_searchNew NewMountTabDiff_def)
qed

lemma reclassified_map_newFs:
  "list_all2 (reclassified os) D A \<Longrightarrow> map newFs A = map newFs D"
  by (induction rule: list_all2_induct) (auto dest: reclassified_newFs)

lemma entryInv_not_isMountOf:
  assumes "entryInv ot nt e" and "i \<notin> ID ` set (entries nt)"
  shows "\<not> isMountOf e s i"
  using assms by (auto simp: entryInv_def isMountOf_def mountEntry_def split: option.splits)

text \<open>
  Claim C8. The returned list is a first part followed by Umount entries. The first part
  has the length of the list of the first pass and, position by position, holds the
  entry of the first pass or, in place of a Mount entry, that entry reclassified as a
  Move (same \<^verbatim>\<open>newFs\<close>); its \<^verbatim>\<open>newFs\<close> fields are entries of the new table in table order.
  The Umount entries that follow are entries of the old table in table order. Nothing
  sorts the list: in the example the sources come out as sdc1, sda1, sdb1, sdc1, sdd1.
\<close>

theorem GenerateDiff_order:
  "\<exists>A ns us.
     GenerateDiff oldTab newTab = A @ map umountEntry us \<and>
     list_all2 (reclassified (entries (tabOf oldTab))) (pass1 (tabOf oldTab) (tabOf newTab)) A \<and>
     map newFs A = map Some ns \<and> subseq ns (entries (tabOf newTab)) \<and>
     subseq us (entries (tabOf oldTab))"
proof -
  define ot where "ot = tabOf oldTab"
  define nt where "nt = tabOf newTab"
  obtain A us where R: "fold (searchOld nt) (entries ot) (pass1 ot nt) = A @ map umountEntry us"
    and sub: "subseq us (entries ot)"
    and rel: "list_all2 (reclassified (entries ot)) (pass1 ot nt) A"
    using pass2_shape by blast
  define ns where "ns = filter (\<lambda>n. searchNew ot n [] \<noteq> []) (entries nt)"
  have "map newFs A = map Some ns"
    using reclassified_map_newFs[OF rel] by (simp add: pass1_newFs ns_def)
  moreover have "subseq ns (entries nt)" by (simp add: ns_def)
  moreover have "GenerateDiff oldTab newTab = A @ map umountEntry us"
    using R by (simp add: GenerateDiff_two_pass pass2_def ot_def nt_def)
  ultimately show ?thesis using sub rel unfolding ot_def nt_def by blast
qed

theorem GenerateDiff_order_witness:
  "map entrySource (GenerateDiff (Some oldTabEx) (Some newTabEx)) =
     [Some ''/dev/sdc1'', Some ''/dev/sda1'', Some ''/dev/sdb1'', Some ''/dev/sdc1'',
      Some ''/dev/sdd1''] \<and>
   (\<exists>A ns us.
     GenerateDiff (Some oldTabEx) (Some newTabEx) = A @ map umountEntry us \<and>
     list_all2 (reclassified (entries (tabOf (Some oldTabEx))))
       (pass1 (tabOf (Some oldTabEx)) (tabOf (Some newTabEx))) A \<and>
     map newFs A = map Some ns \<and> subseq ns (entries (tabOf (Some newTabEx))) \<and>
     subseq us (entries (tabOf (Some oldTabEx))))"
proof
  show "map entrySource (GenerateDiff (Some oldTabEx) (Some newTabEx)) =
     [Some ''/dev/sdc1'', Some ''/dev/sda1'', Some ''/dev/sdb1'', Some ''/dev/sdc1'',
      Some ''/dev/sdd1'']"
    by (simp add: GenerateDiff_example entrySource_def entry_defs mkFs_def)
  show "\<exists>A ns us.
     GenerateDiff (Some oldTabEx) (Some newTabEx) = A @ map umountEntry us \<and>
     list_all2 (reclassified (entries (tabOf (Some oldTabEx))))
       (pass1 (tabOf (Some oldTabEx)) (tabOf (Some newTabEx))) A \<and>
     map newFs A = map Some ns \<and> subseq ns (entries (tabOf (Some newTabEx))) \<and>
     subseq us (entries (tabOf (Some oldTabEx)))"
    by (rule GenerateDiff_order)
qed

text \<open>
  Claim C1. Let the old table be \<open>pre @ ofs # post\<close>, where no entry of the new table
  has the Source and the Target of \<open>ofs\<close>, and take the diff list built so far, when the
  second loop reaches \<open>ofs\<close>: the list built by the first pass, patched in place by the
  loop for the entries \<open>pre\<close>. If it contains a Mount entry whose \<^verbatim>\<open>newFs\<close> has the ID
  and the Source of \<open>ofs\<close>, the first such entry, at position \<open>k\<close>, is reclassified in
  place: the list keeps its length, and the returned list has at position \<open>k\<close> the entry
  with action Move, \<^verbatim>\<open>oldFs\<close> the entry \<open>ofs\<close> and \<^verbatim>\<open>newFs\<close> as it was. Otherwise an Umount
  entry with \<^verbatim>\<open>oldFs\<close> the entry \<open>ofs\<close> and \<^verbatim>\<open>newFs\<close> nil is appended, and the returned
  list has it at that position. When the IDs of the old table are pairwise distinct, the
  search in the patched list finds exactly what a search in the untouched list of the
  first pass finds. When the ID of \<open>ofs\<close> is the ID of no entry of the new table, the
  search finds nothing, so that the Umount entry is appended, and no Move entry of the
  returned list has \<open>ofs\<close> as its \<^verbatim>\<open>oldFs\<close>.
\<close>

theorem pass2_umount_or_move:
  assumes split: "entries oldTab = pre @ ofs # post"
    and unm: "Find newTab [SourceFilter (Source ofs), TargetFilter (Target ofs)] = None"
  shows
   "(case getMountEntry (fold (searchOld newTab) pre (pass1 oldTab newTab)) (Source ofs) (ID ofs) of
       Some k \<Rightarrow>
         k < length (fold (searchOld newTab) pre (pass1 oldTab newTab)) \<and>
         isMountOf (fold (searchOld newTab) pre (pass1 oldTab newTab) ! k) (Source ofs) (ID ofs) \<and>
         (\<forall>j<k. \<not> isMountOf (fold (searchOld newTab) pre (pass1 oldTab newTab) ! j)
                    (Source ofs) (ID ofs)) \<and>
         length (searchOld newTab ofs (fold (searchOld newTab) pre (pass1 oldTab newTab))) =
           length (fold (searchOld newTab) pre (pass1 oldTab newTab)) \<and>
         k < length (GenerateDiff (Some oldTab) (Some newTab)) \<and>
         GenerateDiff (Some oldTab) (Some newTab) ! k =
           \<lparr>oldFs = Some ofs,
            newFs = newFs (fold (searchOld newTab) pre (pass1 oldTab newTab) ! k),
            action = MountActionMove\<rparr>
     | None \<Rightarrow>
         (\<forall>e\<in>set (fold (searchOld newTab) pre (pass1 oldTab newTab)).
            \<not> isMountOf e (Source ofs) (ID ofs)) \<and>
         searchOld newTab ofs (fold (searchOld newTab) pre (pass1 oldTab newTab)) =
           fold (searchOld newTab) pre (pass1 oldTab newTab) @
             [\<lparr>oldFs = Some ofs, newFs = None, action = MountActionUmount\<rparr>] \<and>
         length (fold (searchOld newTab) pre (pass1 oldTab newTab)) <
           length (GenerateDiff (Some oldTab) (Some newTab)) \<and>
         GenerateDiff (Some oldTab) (Some newTab) !
             length (fold (searchOld newTab) pre (pass1 oldTab newTab)) =
           \<lparr>oldFs = Some ofs, newFs = None, action = MountActionUmount\<rparr>) \<and>
    (distinct (map ID (entries oldTab)) \<longrightarrow>
       getMountEntry (fold (searchOld newTab) pre (pass1 oldTab newTab)) (Source ofs) (ID ofs) =
       getMountEntry (pass1 oldTab newTab) (Source ofs) (ID ofs)) \<and>
    (ID ofs \<notin> ID ` set (entries newTab) \<longrightarrow>
       getMountEntry (fold (searchOld newTab) pre (pass1 oldTab newTab)) (Source ofs) (ID ofs) = None \<and>
       (\<forall>e\<in>set (GenerateDiff (Some oldTab) (Some newTab)).
          action e = MountActionMove \<longrightarrow> oldFs e \<noteq> Some ofs))"
proof -
  define D where "D = fold (searchOld newTab) pre (pass1 oldTab newTab)"
  define R where "R = GenerateDiff (Some oldTab) (Some newTab)"
  have R: "R = fold (searchOld newTab) post (searchOld newTab ofs D)"
    by (simp add: R_def D_def GenerateDiff_two_pass tabOf_def pass2_def split)
  have u: "unmatched newTab ofs" using unm by (simp add: unmatched_def)
  have main: "(case getMountEntry D (Source ofs) (ID ofs) of
       Some k \<Rightarrow>
         k < length D \<and> isMountOf (D ! k) (Source ofs) (ID ofs) \<and>
         (\<forall>j<k. \<not> isMountOf (D ! j) (Source ofs) (ID ofs)) \<and>
         length (searchOld newTab ofs D) = length D \<and> k < length R \<and>
         R ! k = \<lparr>oldFs = Some ofs, newFs = newFs (D ! k), action = MountActionMove\<rparr>
     | None \<Rightarrow>
         (\<forall>e\<in>set D. \<not> isMountOf e (Source ofs) (ID ofs)) \<and>
         searchOld newTab ofs D =
           D @ [\<lparr>oldFs = Some ofs, newFs = None, action = MountActionUmount\<rparr>] \<and>
         length D < length R \<and>
         R ! length D = \<lparr>oldFs = Some ofs, newFs = None, action = MountActionUmount\<rparr>)"
  proof (cases rule: searchOld_cases[of newTab ofs D])
    case matched
    then show ?thesis using u by simp
  next
    case umount
    define X where "X = searchOld newTab ofs D"
    have X: "X = D @ [umountEntry ofs]" using umount(3) by (simp add: X_def)
    have "length D < length X" "action (X ! length D) \<noteq> MountActionMount"
      by (simp_all add: X umountEntry_def)
    from fold_searchOld_stable[OF this, of newTab post]
    have "length D < length R \<and> R ! length D = umountEntry ofs"
      by (simp add: R X_def[symmetric]) (simp add: X)
    moreover have "\<forall>e\<in>set D. \<not> isMountOf e (Source ofs) (ID ofs)"
      using umount(2) by (simp add: gme_None_iff)
    ultimately show ?thesis using X
      by (simp add: umount(2) X_def umountEntry_def)
  next
    case (move k nfs)
    define X where "X = searchOld newTab ofs D"
    have X: "X = D[k := (D ! k)\<lparr>oldFs := Some ofs, action := MountActionMove\<rparr>]"
      using move(8) by (simp add: X_def)
    have Xk: "X ! k = \<lparr>oldFs = Some ofs, newFs = newFs (D ! k), action = MountActionMove\<rparr>"
      using move(3) by (simp add: X)
    have "k < length X" "action (X ! k) \<noteq> MountActionMount"
      using move(3) Xk by (simp_all add: X)
    from fold_searchOld_stable[OF this, of newTab post]
    have "k < length R \<and> R ! k = X ! k" by (simp add: R X_def[symmetric])
    moreover have "length X = length D" by (simp add: X)
    ultimately show ?thesis
      using move(2,3) gme_isMountOf[OF move(2)] gme_first[OF move(2)] Xk
      by (simp add: X_def)
  qed
  have static: "getMountEntry D (Source ofs) (ID ofs) =
      getMountEntry (pass1 oldTab newTab) (Source ofs) (ID ofs)"
    if "distinct (map ID (entries oldTab))"
  proof -
    have "ID ofs \<notin> ID ` set pre" using that by (auto simp: split)
    then show ?thesis unfolding D_def by (rule gme_fold_searchOld_other)
  qed
  have part: "getMountEntry D (Source ofs) (ID ofs) = None \<and>
       (\<forall>e\<in>set R. action e = MountActionMove \<longrightarrow> oldFs e \<noteq> Some ofs)"
    if ni: "ID ofs \<notin> ID ` set (entries newTab)"
  proof
    have "\<forall>e\<in>set (pass1 oldTab newTab). entryInv oldTab newTab e"
      using entryInv_pass1 by blast
    then have "\<forall>e\<in>set D. entryInv oldTab newTab e"
      unfolding D_def by (intro entryInv_fold_searchOld) (auto simp: split)
    then show "getMountEntry D (Source ofs) (ID ofs) = None"
      using ni by (auto simp: gme_None_iff dest: entryInv_not_isMountOf)
    show "\<forall>e\<in>set R. action e = MountActionMove \<longrightarrow> oldFs e \<noteq> Some ofs"
    proof (intro ballI impI)
      fix e assume e: "e \<in> set R" and m: "action e = MountActionMove"
      from e have "entryInv (tabOf (Some oldTab)) (tabOf (Some newTab)) e"
        unfolding R_def by (rule GenerateDiff_entryInv)
      with m obtain o' n' where "n' \<in> set (entries newTab)" "e = moveEntry o' n'" "ID n' = ID o'"
        by (auto simp: entryInv_def tabOf_def)
      then have "ID o' \<in> ID ` set (entries newTab)" "oldFs e = Some o'"
        by (auto simp: moveEntry_def intro: rev_image_eqI)
      then show "oldFs e \<noteq> Some ofs" using ni by auto
    qed
  qed
  show ?thesis
    using main static part unfolding D_def R_def by blast
qed

theorem pass2_umount_or_move_witness:
  "entries oldTabEx = [mkFs 1 ''/dev/sda1'' ''/'' ''rw,relatime'' ''rw''] @ (mkFs 5 ''/dev/sdb1'' ''/mnt/a'' ''rw'' ''rw'') # [mkFs 7 ''/dev/sdd1'' ''/mnt/d'' ''rw'' ''rw''] \<and>
   Find newTabEx [SourceFilter (Source (mkFs 5 ''/dev/sdb1'' ''/mnt/a'' ''rw'' ''rw'')), TargetFilter (Target (mkFs 5 ''/dev/sdb1'' ''/mnt/a'' ''rw'' ''rw''))] = None \<and>
   getMountEntry (fold (searchOld newTabEx) [mkFs 1 ''/dev/sda1'' ''/'' ''rw,relatime'' ''rw''] (pass1 oldTabEx newTabEx))
     (Source (mkFs 5 ''/dev/sdb1'' ''/mnt/a'' ''rw'' ''rw'')) (ID (mkFs 5 ''/dev/sdb1'' ''/mnt/a'' ''rw'' ''rw'')) = Some 2 \<and>
   GenerateDiff (Some oldTabEx) (Some newTabEx) ! 2 =
     \<lparr>oldFs = Some (mkFs 5 ''/dev/sdb1'' ''/mnt/a'' ''rw'' ''rw''), newFs = Some (mkFs 5 ''/dev/sdb1'' ''/mnt/b'' ''rw'' ''rw''), action = MountActionMove\<rparr> \<and>
   distinct (map ID (entries oldTabEx)) \<and>
   getMountEntry (pass1 oldTabEx newTabEx) (Source (mkFs 5 ''/dev/sdb1'' ''/mnt/a'' ''rw'' ''rw'')) (ID (mkFs 5 ''/dev/sdb1'' ''/mnt/a'' ''rw'' ''rw'')) = Some 2 \<and>
   entries oldTabEx = [mkFs 1 ''/dev/sda1'' ''/'' ''rw,relatime'' ''rw'', mkFs 5 ''/dev/sdb1'' ''/mnt/a'' ''rw'' ''rw''] @ (mkFs 7 ''/dev/sdd1'' ''/mnt/d'' ''rw'' ''rw'') # [] \<and>
   Find newTabEx [SourceFilter (Source (mkFs 7 ''/dev/sdd1'' ''/mnt/d'' ''rw'' ''rw'')), TargetFilter (Target (mkFs 7 ''/dev/sdd1'' ''/mnt/d'' ''rw'' ''rw''))] = None \<and>
   ID (mkFs 7 ''/dev/sdd1'' ''/mnt/d'' ''rw'' ''rw'') \<notin> ID ` set (entries newTabEx) \<and>
   GenerateDiff (Some oldTabEx) (Some newTabEx) ! 4 =
     \<lparr>oldFs = Some (mkFs 7 ''/dev/sdd1'' ''/mnt/d'' ''rw'' ''rw''), newFs = None, action = MountActionUmount\<rparr>"
proof -
  have s1: "entries oldTabEx = [mkFs 1 ''/dev/sda1'' ''/'' ''rw,relatime'' ''rw''] @ (mkFs 5 ''/dev/sdb1'' ''/mnt/a'' ''rw'' ''rw'') # [mkFs 7 ''/dev/sdd1'' ''/mnt/d'' ''rw'' ''rw'']"
    by (simp add: oldTabEx_def)
  have u1: "Find newTabEx [SourceFilter (Source (mkFs 5 ''/dev/sdb1'' ''/mnt/a'' ''rw'' ''rw'')), TargetFilter (Target (mkFs 5 ''/dev/sdb1'' ''/mnt/a'' ''rw'' ''rw''))] = None"
    by (simp add: run_defs newTabEx_def)
  have D1: "fold (searchOld newTabEx) [mkFs 1 ''/dev/sda1'' ''/'' ''rw,relatime'' ''rw''] (pass1 oldTabEx newTabEx) =
      [mountEntry (mkFs 9 ''/dev/sdc1'' ''/mnt/c'' ''rw'' ''rw''),
       remountEntry (mkFs 1 ''/dev/sda1'' ''/'' ''rw,relatime'' ''rw'') (mkFs 1 ''/dev/sda1'' ''/'' ''ro,relatime'' ''rw''),
       mountEntry (mkFs 5 ''/dev/sdb1'' ''/mnt/b'' ''rw'' ''rw''),
       mountEntry (mkFs 10 ''/dev/sdc1'' ''/mnt/c2'' ''rw'' ''rw'')]"
    by (simp add: run_defs oldTabEx_def newTabEx_def)
  have g1: "getMountEntry (fold (searchOld newTabEx) [mkFs 1 ''/dev/sda1'' ''/'' ''rw,relatime'' ''rw''] (pass1 oldTabEx newTabEx))
     (Source (mkFs 5 ''/dev/sdb1'' ''/mnt/a'' ''rw'' ''rw'')) (ID (mkFs 5 ''/dev/sdb1'' ''/mnt/a'' ''rw'' ''rw'')) = Some 2"
    unfolding D1 by (simp add: run_defs eval_nat_numeral)
  have d: "distinct (map ID (entries oldTabEx))"
    by (simp add: oldTabEx_def mkFs_def)
  note t1 = pass2_umount_or_move[OF s1 u1]
  have r1: "GenerateDiff (Some oldTabEx) (Some newTabEx) ! 2 =
     \<lparr>oldFs = Some (mkFs 5 ''/dev/sdb1'' ''/mnt/a'' ''rw'' ''rw''), newFs = Some (mkFs 5 ''/dev/sdb1'' ''/mnt/b'' ''rw'' ''rw''), action = MountActionMove\<rparr>"
    using t1[unfolded g1, unfolded D1] by (simp add: entry_defs eval_nat_numeral)
  have p1: "getMountEntry (pass1 oldTabEx newTabEx) (Source (mkFs 5 ''/dev/sdb1'' ''/mnt/a'' ''rw'' ''rw'')) (ID (mkFs 5 ''/dev/sdb1'' ''/mnt/a'' ''rw'' ''rw'')) = Some 2"
    using t1 d g1 by simp
  have s2: "entries oldTabEx = [mkFs 1 ''/dev/sda1'' ''/'' ''rw,relatime'' ''rw'', mkFs 5 ''/dev/sdb1'' ''/mnt/a'' ''rw'' ''rw''] @ (mkFs 7 ''/dev/sdd1'' ''/mnt/d'' ''rw'' ''rw'') # []"
    by (simp add: oldTabEx_def)
  have u2: "Find newTabEx [SourceFilter (Source (mkFs 7 ''/dev/sdd1'' ''/mnt/d'' ''rw'' ''rw'')), TargetFilter (Target (mkFs 7 ''/dev/sdd1'' ''/mnt/d'' ''rw'' ''rw''))] = None"
    by (simp add: run_defs newTabEx_def)
  have n2: "ID (mkFs 7 ''/dev/sdd1'' ''/mnt/d'' ''rw'' ''rw'') \<notin> ID ` set (entries newTabEx)"
    by (simp add: newTabEx_def mkFs_def)
  have D2: "length (fold (searchOld newTabEx) [mkFs 1 ''/dev/sda1'' ''/'' ''rw,relatime'' ''rw'', mkFs 5 ''/dev/sdb1'' ''/mnt/a'' ''rw'' ''rw''] (pass1 oldTabEx newTabEx)) = 4"
    by (simp add: run_defs oldTabEx_def newTabEx_def)
  note t2 = pass2_umount_or_move[OF s2 u2]
  have g2: "getMountEntry (fold (searchOld newTabEx) [mkFs 1 ''/dev/sda1'' ''/'' ''rw,relatime'' ''rw'', mkFs 5 ''/dev/sdb1'' ''/mnt/a'' ''rw'' ''rw''] (pass1 oldTabEx newTabEx))
     (Source (mkFs 7 ''/dev/sdd1'' ''/mnt/d'' ''rw'' ''rw'')) (ID (mkFs 7 ''/dev/sdd1'' ''/mnt/d'' ''rw'' ''rw'')) = None"
    using t2 n2 by blast
  have r2: "GenerateDiff (Some oldTabEx) (Some newTabEx) ! 4 =
     \<lparr>oldFs = Some (mkFs 7 ''/dev/sdd1'' ''/mnt/d'' ''rw'' ''rw''), newFs = None, action = MountActionUmount\<rparr>"
    using t2[unfolded g2, unfolded D2] by simp
  show ?thesis using s1 u1 g1 r1 d p1 s2 u2 n2 r2 by blast
qed

subsection \<open>The list of sources\<close>

lemma collectSources_Some:
  assumes "\<forall>e\<in>set md. entrySource e \<noteq> None"
  shows "collectSources md u = Some (u \<union> {s. \<exists>e\<in>set md. entrySource e = Some s})"
  using assms
proof (induction md arbitrary: u)
  case Nil
  show ?case by simp
next
  case (Cons e md)
  then obtain src where src: "entrySource e = Some src" by auto
  have "(if src \<in> u then u else insert src u) = insert src u" by auto
  then have "collectSources (e # md) u = collectSources md (insert src u)"
    using src by simp
  also have "\<dots> = Some (insert src u \<union> {s. \<exists>e\<in>set md. entrySource e = Some s})"
    using Cons by simp
  also have "insert src u \<union> {s. \<exists>e\<in>set md. entrySource e = Some s} =
      u \<union> {s. \<exists>e'\<in>set (e # md). entrySource e' = Some s}"
    using src by auto
  finally show ?case .
qed

lemma entrySource_iff:
  "entrySource e = Some s \<longleftrightarrow>
     (action e = MountActionUmount \<and> (\<exists>ofs. oldFs e = Some ofs \<and> Source ofs = s)) \<or>
     (action e \<noteq> MountActionUmount \<and> (\<exists>nfs. newFs e = Some nfs \<and> Source nfs = s))"
  by (auto simp: entrySource_def)

lemma entryInv_entrySource: "entryInv ot nt e \<Longrightarrow> entrySource e \<noteq> None"
  by (cases "action e") (auto simp: entryInv_def entrySource_def entry_defs)

lemma ListSources_example:
  "ListSources (GenerateDiff (Some oldTabEx) (Some newTabEx)) =
     Some [''/dev/sda1'', ''/dev/sdb1'', ''/dev/sdc1'', ''/dev/sdd1'']"
  unfolding GenerateDiff_example by code_simp

text \<open>
  Claim C6. On a list returned by \<^verbatim>\<open>GenerateDiff\<close>, \<^verbatim>\<open>ListSources\<close> does not panic (the
  pointer it dereferences is never nil there) and returns a list that is sorted in
  increasing lexicographic order, has no duplicates, and whose elements are exactly the
  Sources of \<^verbatim>\<open>oldFs\<close> of the Umount entries and of \<^verbatim>\<open>newFs\<close> of all other entries.
\<close>

theorem ListSources_GenerateDiff:
  "\<exists>xs. ListSources (GenerateDiff oldTab newTab) = Some xs \<and> sorted xs \<and> distinct xs \<and>
     set xs = {s. \<exists>e\<in>set (GenerateDiff oldTab newTab).
                 (action e = MountActionUmount \<and> (\<exists>ofs. oldFs e = Some ofs \<and> Source ofs = s)) \<or>
                 (action e \<noteq> MountActionUmount \<and> (\<exists>nfs. newFs e = Some nfs \<and> Source nfs = s))}"
proof -
  define R where "R = GenerateDiff oldTab newTab"
  define S where "S = {s. \<exists>e\<in>set R. entrySource e = Some s}"
  have "\<forall>e\<in>set R. entrySource e \<noteq> None"
    unfolding R_def using GenerateDiff_entryInv entryInv_entrySource by blast
  then have "collectSources R {} = Some S"
    by (simp add: collectSources_Some S_def)
  then have L: "ListSources R = Some (sorted_list_of_set S)"
    by (simp add: ListSources_def)
  have "S \<subseteq> (\<lambda>e. the (entrySource e)) ` set R" by (force simp: S_def)
  then have fin: "finite S" by (rule finite_surj[rotated]) simp
  have "sorted (sorted_list_of_set S)" "distinct (sorted_list_of_set S)"
    "set (sorted_list_of_set S) = S"
    using fin by simp_all
  moreover have "S = {s. \<exists>e\<in>set R.
                 (action e = MountActionUmount \<and> (\<exists>ofs. oldFs e = Some ofs \<and> Source ofs = s)) \<or>
                 (action e \<noteq> MountActionUmount \<and> (\<exists>nfs. newFs e = Some nfs \<and> Source nfs = s))}"
    by (simp add: S_def entrySource_iff)
  ultimately show ?thesis using L unfolding R_def by metis
qed

theorem ListSources_GenerateDiff_witness:
  "ListSources (GenerateDiff (Some oldTabEx) (Some newTabEx)) =
     Some [''/dev/sda1'', ''/dev/sdb1'', ''/dev/sdc1'', ''/dev/sdd1''] \<and>
   sorted [''/dev/sda1'', ''/dev/sdb1'', ''/dev/sdc1'', ''/dev/sdd1''] \<and>
   length (GenerateDiff (Some oldTabEx) (Some newTabEx)) = 5"
proof -
  obtain xs where xs: "ListSources (GenerateDiff (Some oldTabEx) (Some newTabEx)) = Some xs"
    and s: "sorted xs"
    using ListSources_GenerateDiff[of "Some oldTabEx" "Some newTabEx"] by blast
  have "xs = [''/dev/sda1'', ''/dev/sdb1'', ''/dev/sdc1'', ''/dev/sdd1'']"
    using xs by (simp add: ListSources_example)
  then show ?thesis using s by (simp add: ListSources_example) (simp add: GenerateDiff_example)
qed

subsection \<open>The copying accessors\<close>

lemma copyFs_independent:
  assumes "validPtr h p" and "validPtr h q"
  shows "\<exists>r h1. copyFs h p = Some (r, h1) \<and> (r = None \<longleftrightarrow> p = None) \<and>
           deref h1 r = deref h p \<and>
           (\<forall>v. deref (writeFs h1 r v) p = deref h p \<and>
                (\<exists>r' h3. copyFs (writeFs h1 r v) q = Some (r', h3) \<and> deref h3 r' = deref h q))"
proof (cases p)
  case None
  then show ?thesis using assms(2)
    by (cases q) (simp_all add: copyFs_def deref_def writeFs_def validPtr_def nth_append)
next
  case (Some a)
  then have a: "a < length h" using assms(1) by (simp add: validPtr_def)
  have w: "writeFs (h @ [h ! a]) (Some (length h)) v = h @ [v]" for v
    by (simp add: writeFs_def)
  show ?thesis using assms(2) a Some
    by (cases q) (simp_all add: copyFs_def deref_def w validPtr_def nth_append)
qed

text \<open>
  Claim C9. For a diff entry whose pointers are nil or point into the store, \<^verbatim>\<open>GetOldFs\<close>
  and \<^verbatim>\<open>GetNewFs\<close> return nil exactly when the field is nil, and otherwise a pointer
  through which the caller reads the value of the referenced entry. Whatever value the
  caller then writes through the returned pointer, a later call of \<^verbatim>\<open>GetOldFs\<close> or of
  \<^verbatim>\<open>GetNewFs\<close> on the same diff entry returns a pointer to the value that the entry
  referenced before the write.
\<close>

theorem accessors_return_copies:
  assumes "validPtr h (oldFs mde)" and "validPtr h (newFs mde)"
  shows
   "(\<exists>r h1. GetOldFs h mde = Some (r, h1) \<and> (r = None \<longleftrightarrow> oldFs mde = None) \<and>
       deref h1 r = deref h (oldFs mde) \<and>
       (\<forall>v. (\<exists>r' h3. GetOldFs (writeFs h1 r v) mde = Some (r', h3) \<and>
                 deref h3 r' = deref h (oldFs mde)) \<and>
            (\<exists>r' h3. GetNewFs (writeFs h1 r v) mde = Some (r', h3) \<and>
                 deref h3 r' = deref h (newFs mde)))) \<and>
    (\<exists>r h1. GetNewFs h mde = Some (r, h1) \<and> (r = None \<longleftrightarrow> newFs mde = None) \<and>
       deref h1 r = deref h (newFs mde) \<and>
       (\<forall>v. (\<exists>r' h3. GetOldFs (writeFs h1 r v) mde = Some (r', h3) \<and>
                 deref h3 r' = deref h (oldFs mde)) \<and>
            (\<exists>r' h3. GetNewFs (writeFs h1 r v) mde = Some (r', h3) \<and>
                 deref h3 r' = deref h (newFs mde))))"
proof -
  note oo = copyFs_independent[OF assms(1) assms(1)]
  note on = copyFs_independent[OF assms(1) assms(2)]
  note no = copyFs_independent[OF assms(2) assms(1)]
  note nn = copyFs_independent[OF assms(2) assms(2)]
  have A: "\<exists>r h1. GetOldFs h mde = Some (r, h1) \<and> (r = None \<longleftrightarrow> oldFs mde = None) \<and>
       deref h1 r = deref h (oldFs mde) \<and>
       (\<forall>v. (\<exists>r' h3. GetOldFs (writeFs h1 r v) mde = Some (r', h3) \<and>
                 deref h3 r' = deref h (oldFs mde)) \<and>
            (\<exists>r' h3. GetNewFs (writeFs h1 r v) mde = Some (r', h3) \<and>
                 deref h3 r' = deref h (newFs mde)))"
    using oo on unfolding GetOldFs_def GetNewFs_def by (metis option.inject prod.inject)
  have B: "\<exists>r h1. GetNewFs h mde = Some (r, h1) \<and> (r = None \<longleftrightarrow> newFs mde = None) \<and>
       deref h1 r = deref h (newFs mde) \<and>
       (\<forall>v. (\<exists>r' h3. GetOldFs (writeFs h1 r v) mde = Some (r', h3) \<and>
                 deref h3 r' = deref h (oldFs mde)) \<and>
            (\<exists>r' h3. GetNewFs (writeFs h1 r v) mde = Some (r', h3) \<and>
                 deref h3 r' = deref h (newFs mde)))"
    using no nn unfolding GetOldFs_def GetNewFs_def by (metis option.inject prod.inject)
  show ?thesis using A B by blast
qed

theorem accessors_return_copies_witness:
  "validPtr [mkFs 5 ''/dev/sdb1'' ''/mnt/a'' ''rw'' ''rw'', mkFs 5 ''/dev/sdb1'' ''/mnt/b'' ''rw'' ''rw''] (oldFs \<lparr>oldFs = Some 0, newFs = Some 1, action = MountActionMove\<rparr>) \<and>
   validPtr [mkFs 5 ''/dev/sdb1'' ''/mnt/a'' ''rw'' ''rw'', mkFs 5 ''/dev/sdb1'' ''/mnt/b'' ''rw'' ''rw''] (newFs \<lparr>oldFs = Some 0, newFs = Some 1, action = MountActionMove\<rparr>) \<and>
   GetOldFs [mkFs 5 ''/dev/sdb1'' ''/mnt/a'' ''rw'' ''rw'', mkFs 5 ''/dev/sdb1'' ''/mnt/b'' ''rw'' ''rw''] \<lparr>oldFs = Some 0, newFs = Some 1, action = MountActionMove\<rparr> =
     Some (Some 2, [mkFs 5 ''/dev/sdb1'' ''/mnt/a'' ''rw'' ''rw'', mkFs 5 ''/dev/sdb1'' ''/mnt/b'' ''rw'' ''rw''] @ [mkFs 5 ''/dev/sdb1'' ''/mnt/a'' ''rw'' ''rw'']) \<and>
   (\<exists>r' h3. GetOldFs (writeFs ([mkFs 5 ''/dev/sdb1'' ''/mnt/a'' ''rw'' ''rw'', mkFs 5 ''/dev/sdb1'' ''/mnt/b'' ''rw'' ''rw''] @ [mkFs 5 ''/dev/sdb1'' ''/mnt/a'' ''rw'' ''rw'']) (Some 2) (mkFs 0 ''overwritten'' ''/'' '''' '''')) \<lparr>oldFs = Some 0, newFs = Some 1, action = MountActionMove\<rparr> = Some (r', h3) \<and>
      deref h3 r' = Some (mkFs 5 ''/dev/sdb1'' ''/mnt/a'' ''rw'' ''rw'')) \<and>
   (\<exists>r' h3. GetNewFs (writeFs ([mkFs 5 ''/dev/sdb1'' ''/mnt/a'' ''rw'' ''rw'', mkFs 5 ''/dev/sdb1'' ''/mnt/b'' ''rw'' ''rw''] @ [mkFs 5 ''/dev/sdb1'' ''/mnt/a'' ''rw'' ''rw'']) (Some 2) (mkFs 0 ''overwritten'' ''/'' '''' '''')) \<lparr>oldFs = Some 0, newFs = Some 1, action = MountActionMove\<rparr> = Some (r', h3) \<and>
      deref h3 r' = Some (mkFs 5 ''/dev/sdb1'' ''/mnt/b'' ''rw'' ''rw''))"
proof -
  define H where "H = [mkFs 5 ''/dev/sdb1'' ''/mnt/a'' ''rw'' ''rw'', mkFs 5 ''/dev/sdb1'' ''/mnt/b'' ''rw'' ''rw'']"
  define M :: "addr MountTabDiffEntry" where "M = \<lparr>oldFs = Some 0, newFs = Some 1, action = MountActionMove\<rparr>"
  have v1: "validPtr H (oldFs M)" and v2: "validPtr H (newFs M)"
    by (simp_all add: validPtr_def H_def M_def)
  have g: "GetOldFs H M = Some (Some 2, H @ [mkFs 5 ''/dev/sdb1'' ''/mnt/a'' ''rw'' ''rw''])"
    by (simp add: GetOldFs_def copyFs_def H_def M_def)
  have d: "deref H (oldFs M) = Some (mkFs 5 ''/dev/sdb1'' ''/mnt/a'' ''rw'' ''rw'')" "deref H (newFs M) = Some (mkFs 5 ''/dev/sdb1'' ''/mnt/b'' ''rw'' ''rw'')"
    by (simp_all add: deref_def H_def M_def)
  from accessors_return_copies[OF v1 v2] obtain r h1 where
    "GetOldFs H M = Some (r, h1)" and
    later: "\<forall>v. (\<exists>r' h3. GetOldFs (writeFs h1 r v) M = Some (r', h3) \<and>
                 deref h3 r' = deref H (oldFs M)) \<and>
            (\<exists>r' h3. GetNewFs (writeFs h1 r v) M = Some (r', h3) \<and>
                 deref h3 r' = deref H (newFs M))"
    by blast
  then have "r = Some 2" "h1 = H @ [mkFs 5 ''/dev/sdb1'' ''/mnt/a'' ''rw'' ''rw'']" using g by simp_all
  with later d have
    "(\<exists>r' h3. GetOldFs (writeFs (H @ [mkFs 5 ''/dev/sdb1'' ''/mnt/a'' ''rw'' ''rw'']) (Some 2) (mkFs 0 ''overwritten'' ''/'' '''' '''')) M = Some (r', h3) \<and>
      deref h3 r' = Some (mkFs 5 ''/dev/sdb1'' ''/mnt/a'' ''rw'' ''rw'')) \<and>
     (\<exists>r' h3. GetNewFs (writeFs (H @ [mkFs 5 ''/dev/sdb1'' ''/mnt/a'' ''rw'' ''rw'']) (Some 2) (mkFs 0 ''overwritten'' ''/'' '''' '''')) M = Some (r', h3) \<and>
      deref h3 r' = Some (mkFs 5 ''/dev/sdb1'' ''/mnt/b'' ''rw'' ''rw''))"
    by metis
  then show ?thesis using v1 v2 g unfolding H_def M_def by blast
qed

subsection \<open>Tables with the same entries\<close>

lemma fold_searchOld_matched:
  assumes "\<forall>ofs\<in>set os. \<not> unmatched nt ofs"
  shows "fold (searchOld nt) os D = D"
  using assms
proof (induction os)
  case Nil
  show ?case by simp
next
  case (Cons ofs os)
  then have "Find nt [SourceFilter (Source ofs), TargetFilter (Target ofs)] \<noteq> None"
    by (simp add: unmatched_def)
  then have "searchOld nt ofs D = D"
    by (auto simp: searchOld_def)
  then show ?case using Cons by simp
qed

text \<open>
  Claim C5, as stated, fails: entries that are pairwise the same in Source, Target and
  both option strings do not give an empty diff list when a table has two entries with
  the same Source and Target and different options (a second mount over the first).
  The lookup of the first pass returns the first old entry with the pair, so the second
  new entry is compared with the first old one and a Remount entry is recorded.
\<close>

theorem GenerateDiff_identical_tables_counterexample:
  "map (\<lambda>fs. (Source fs, Target fs, VFSOptions fs, FSOptions fs))
     [mkFs 1 ''tmpfs'' ''/mnt'' ''rw'' ''rw'', mkFs 2 ''tmpfs'' ''/mnt'' ''ro'' ''rw''] =
   map (\<lambda>fs. (Source fs, Target fs, VFSOptions fs, FSOptions fs))
     [mkFs 11 ''tmpfs'' ''/mnt'' ''rw'' ''rw'', mkFs 12 ''tmpfs'' ''/mnt'' ''ro'' ''rw''] \<and>
   GenerateDiff (Some \<lparr>entries = [mkFs 1 ''tmpfs'' ''/mnt'' ''rw'' ''rw'', mkFs 2 ''tmpfs'' ''/mnt'' ''ro'' ''rw'']\<rparr>)
     (Some \<lparr>entries = [mkFs 11 ''tmpfs'' ''/mnt'' ''rw'' ''rw'', mkFs 12 ''tmpfs'' ''/mnt'' ''ro'' ''rw'']\<rparr>) =
   [remountEntry (mkFs 1 ''tmpfs'' ''/mnt'' ''rw'' ''rw'') (mkFs 12 ''tmpfs'' ''/mnt'' ''ro'' ''rw'')] \<and>
   GenerateDiff (Some \<lparr>entries = [mkFs 1 ''tmpfs'' ''/mnt'' ''rw'' ''rw'', mkFs 2 ''tmpfs'' ''/mnt'' ''ro'' ''rw'']\<rparr>)
     (Some \<lparr>entries = [mkFs 11 ''tmpfs'' ''/mnt'' ''rw'' ''rw'', mkFs 12 ''tmpfs'' ''/mnt'' ''ro'' ''rw'']\<rparr>) \<noteq> []"
proof -
  have k: "map (\<lambda>fs. (Source fs, Target fs, VFSOptions fs, FSOptions fs))
     [mkFs 1 ''tmpfs'' ''/mnt'' ''rw'' ''rw'', mkFs 2 ''tmpfs'' ''/mnt'' ''ro'' ''rw''] =
   map (\<lambda>fs. (Source fs, Target fs, VFSOptions fs, FSOptions fs))
     [mkFs 11 ''tmpfs'' ''/mnt'' ''rw'' ''rw'', mkFs 12 ''tmpfs'' ''/mnt'' ''ro'' ''rw'']"
    by (simp add: mkFs_def)
  have g: "GenerateDiff (Some \<lparr>entries = [mkFs 1 ''tmpfs'' ''/mnt'' ''rw'' ''rw'', mkFs 2 ''tmpfs'' ''/mnt'' ''ro'' ''rw'']\<rparr>)
     (Some \<lparr>entries = [mkFs 11 ''tmpfs'' ''/mnt'' ''rw'' ''rw'', mkFs 12 ''tmpfs'' ''/mnt'' ''ro'' ''rw'']\<rparr>) =
   [remountEntry (mkFs 1 ''tmpfs'' ''/mnt'' ''rw'' ''rw'') (mkFs 12 ''tmpfs'' ''/mnt'' ''ro'' ''rw'')]"
    by (simp add: run_defs)
  show ?thesis using k g by simp
qed

text \<open>
  Claim C5, amended. When the entries of \<open>T\<close> and \<open>T'\<close> are pairwise the same in Source,
  Target, VFS options and FS options (whatever their IDs), and entries of \<open>T\<close> that share
  Source and Target also share both option strings (as they do when each (Source,
  Target) pair occurs at most once in the table), the diff list is empty.
\<close>

theorem GenerateDiff_identical_tables:
  assumes same: "map (\<lambda>fs. (Source fs, Target fs, VFSOptions fs, FSOptions fs)) (entries T) =
                 map (\<lambda>fs. (Source fs, Target fs, VFSOptions fs, FSOptions fs)) (entries T')"
    and cons: "\<forall>a\<in>set (entries T). \<forall>b\<in>set (entries T).
                 Source a = Source b \<and> Target a = Target b \<longrightarrow>
                 VFSOptions a = VFSOptions b \<and> FSOptions a = FSOptions b"
  shows "GenerateDiff (Some T) (Some T') = []"
proof -
  define key :: "Filesystem \<Rightarrow> string \<times> string \<times> string \<times> string"
    where "key = (\<lambda>fs. (Source fs, Target fs, VFSOptions fs, FSOptions fs))"
  have keyD: "Source a = Source b \<and> Target a = Target b \<and>
      VFSOptions a = VFSOptions b \<and> FSOptions a = FSOptions b" if "key a = key b" for a b
    using that by (simp add: key_def)
  have "set (map key (entries T)) = set (map key (entries T'))"
    using same unfolding key_def by (rule arg_cong)
  then have sets: "key ` set (entries T) = key ` set (entries T')"
    by (simp only: set_map)
  have new: "searchNew T n [] = []" if n: "n \<in> set (entries T')" for n
  proof -
    from n have "key n \<in> key ` set (entries T)" unfolding sets by (rule imageI)
    then obtain a where a: "a \<in> set (entries T)" and "key n = key a" by (rule imageE)
    then have k: "Source n = Source a" "Target n = Target a"
      "VFSOptions n = VFSOptions a" "FSOptions n = FSOptions a"
      using keyD[of n a] by simp_all
    have "Find T [SourceFilter (Source n), TargetFilter (Target n)] \<noteq> None"
      unfolding Find_None_iff using a k(1,2) by auto
    then obtain b where b: "Find T [SourceFilter (Source n), TargetFilter (Target n)] = Some b"
      by blast
    have bT: "b \<in> set (entries T)" and "Source b = Source a" and "Target b = Target a"
      using Find_SomeD[OF b] k(1,2) by simp_all
    with cons a have "VFSOptions b = VFSOptions a \<and> FSOptions b = FSOptions a" by blast
    then show ?thesis using k(3,4) by (simp add: searchNew_eq b)
  qed
  have p1: "pass1 T T' = []"
    by (simp add: pass1_def fold_searchNew NewMountTabDiff_def new)
  have m: "\<not> unmatched T' a" if a: "a \<in> set (entries T)" for a
  proof -
    from a have "key a \<in> key ` set (entries T')" unfolding sets[symmetric] by (rule imageI)
    then obtain n where n: "n \<in> set (entries T')" and "key a = key n" by (rule imageE)
    then have "Source n = Source a" "Target n = Target a" using keyD[of a n] by simp_all
    then show ?thesis unfolding unmatched_def Find_None_iff using n by auto
  qed
  have "pass2 T T' [] = []"
    unfolding pass2_def by (rule fold_searchOld_matched) (simp add: m)
  then show ?thesis using p1 by (simp add: GenerateDiff_two_pass tabOf_def)
qed

theorem GenerateDiff_identical_tables_witness:
  "map (\<lambda>fs. (Source fs, Target fs, VFSOptions fs, FSOptions fs)) (entries oldTabEx) =
   map (\<lambda>fs. (Source fs, Target fs, VFSOptions fs, FSOptions fs))
     (entries \<lparr>entries =
        [mkFs 21 ''/dev/sda1'' ''/'' ''rw,relatime'' ''rw'',
         mkFs 25 ''/dev/sdb1'' ''/mnt/a'' ''rw'' ''rw'',
         mkFs 27 ''/dev/sdd1'' ''/mnt/d'' ''rw'' ''rw'']\<rparr>) \<and>
   distinct (map (\<lambda>fs. (Source fs, Target fs)) (entries oldTabEx)) \<and>
   GenerateDiff (Some oldTabEx)
     (Some \<lparr>entries =
        [mkFs 21 ''/dev/sda1'' ''/'' ''rw,relatime'' ''rw'',
         mkFs 25 ''/dev/sdb1'' ''/mnt/a'' ''rw'' ''rw'',
         mkFs 27 ''/dev/sdd1'' ''/mnt/d'' ''rw'' ''rw'']\<rparr>) = []"
proof -
  have same: "map (\<lambda>fs. (Source fs, Target fs, VFSOptions fs, FSOptions fs)) (entries oldTabEx) =
   map (\<lambda>fs. (Source fs, Target fs, VFSOptions fs, FSOptions fs))
     (entries \<lparr>entries =
        [mkFs 21 ''/dev/sda1'' ''/'' ''rw,relatime'' ''rw'',
         mkFs 25 ''/dev/sdb1'' ''/mnt/a'' ''rw'' ''rw'',
         mkFs 27 ''/dev/sdd1'' ''/mnt/d'' ''rw'' ''rw'']\<rparr>)"
    by (simp add: oldTabEx_def mkFs_def)
  have d: "distinct (map (\<lambda>fs. (Source fs, Target fs)) (entries oldTabEx))"
    by (simp add: oldTabEx_def mkFs_def)
  have cons: "\<forall>a\<in>set (entries oldTabEx). \<forall>b\<in>set (entries oldTabEx).
                 Source a = Source b \<and> Target a = Target b \<longrightarrow>
                 VFSOptions a = VFSOptions b \<and> FSOptions a = FSOptions b"
    by (simp add: oldTabEx_def mkFs_def)
  show ?thesis
    using same d GenerateDiff_identical_tables[OF same cons] by blast
qed

subsection \<open>Detection of a move\<close>

lemma pass1_actions:
  assumes "e \<in> set (pass1 ot nt)"
  shows "action e = MountActionMount \<or> action e = MountActionRemount"
proof -
  from assms obtain n where "e \<in> set (searchNew ot n [])"
    by (auto simp: pass1_def fold_searchNew NewMountTabDiff_def)
  then show ?thesis
    by (auto simp: searchNew_eq entry_defs split: option.splits if_splits)
qed

lemma pass1_mount_mem:
  assumes "nfs \<in> set (entries nt)" and "unmatched ot nfs"
  shows "mountEntry nfs \<in> set (pass1 ot nt)"
proof -
  have "searchNew ot nfs [] = [mountEntry nfs]"
    using assms(2) by (simp add: searchNew_eq unmatched_def)
  then have "mountEntry nfs \<in> set (searchNew ot nfs [])" by simp
  then show ?thesis using assms(1)
    by (auto simp: pass1_def fold_searchNew NewMountTabDiff_def)
qed

lemma umountEntry_inject: "umountEntry x = umountEntry y \<Longrightarrow> x = y"
  by (simp add: umountEntry_def)

lemma fold_searchOld_umount_origin:
  assumes "umountEntry x \<in> set (fold (searchOld nt) os D)"
  shows "umountEntry x \<in> set D \<or> x \<in> set os"
proof -
  obtain A us where X: "fold (searchOld nt) os D = A @ map umountEntry us"
    and sub: "subseq us os" and rel: "list_all2 (reclassified os) D A"
    using pass2_shape by blast
  from assms X consider (A) "umountEntry x \<in> set A" | (U) "umountEntry x \<in> set (map umountEntry us)"
    by auto
  then show ?thesis
  proof cases
    case A
    then obtain i where i: "i < length A" "A ! i = umountEntry x"
      by (auto simp: in_set_conv_nth)
    have len: "length D = length A" using rel by (rule list_all2_lengthD)
    have "reclassified os (D ! i) (A ! i)"
      using rel i(1) by (simp add: list_all2_conv_all_nth)
    then have "A ! i = D ! i \<or> action (A ! i) = MountActionMove"
      by (auto simp: reclassified_def)
    moreover have "action (A ! i) = MountActionUmount"
      using i(2) by (simp add: umountEntry_def)
    ultimately have "A ! i = D ! i" by simp
    then have "umountEntry x \<in> set D" using i len by (metis nth_mem)
    then show ?thesis ..
  next
    case U
    then obtain u where "u \<in> set us" "umountEntry x = umountEntry u" by auto
    then have "x \<in> set us" by (auto dest: umountEntry_inject)
    moreover have "set us \<subseteq> set os" using sub by (auto elim: list_emb_set)
    ultimately show ?thesis by auto
  qed
qed

lemma filter_single:
  assumes "k < length xs" and "P (xs ! k)" and "\<forall>j<length xs. j \<noteq> k \<longrightarrow> \<not> P (xs ! j)"
  shows "filter P xs = [xs ! k]"
proof -
  have a: "\<forall>x\<in>set (take k xs). \<not> P x"
  proof
    fix x assume "x \<in> set (take k xs)"
    then obtain j where "j < length (take k xs)" "take k xs ! j = x"
      by (auto simp: in_set_conv_nth)
    then have "j < length xs" "j \<noteq> k" "xs ! j = x" using assms(1) by auto
    then show "\<not> P x" using assms(3) by blast
  qed
  have b: "\<forall>x\<in>set (drop (Suc k) xs). \<not> P x"
  proof
    fix x assume "x \<in> set (drop (Suc k) xs)"
    then obtain j where "j < length (drop (Suc k) xs)" "drop (Suc k) xs ! j = x"
      by (auto simp: in_set_conv_nth)
    then have "Suc k + j < length xs" "Suc k + j \<noteq> k" "xs ! (Suc k + j) = x" by auto
    then show "\<not> P x" using assms(3) by blast
  qed
  have "filter P xs = filter P (take k xs @ xs ! k # drop (Suc k) xs)"
    using id_take_nth_drop[OF assms(1)] by simp
  also have "\<dots> = [xs ! k]"
    using a b assms(2) by (simp add: filter_empty_conv)
  finally show ?thesis .
qed

text \<open>
  Claim C2, as stated, fails: \<^verbatim>\<open>getMountEntry\<close> accepts a Mount entry only if its \<^verbatim>\<open>newFs\<close>
  has the ID and also the Source of the old entry. A mount that keeps its ID and shows up
  with another Source (and another Target) is reported as a Mount of the new entry and
  an Umount of the old one, with no Move entry.
\<close>

theorem GenerateDiff_move_same_source_counterexample:
  "ID (mkFs 5 ''/dev/sdb1'' ''/mnt/a'' ''rw'' ''rw'') = ID (mkFs 5 ''/dev/sdc1'' ''/mnt/b'' ''rw'' ''rw'') \<and>
   Source (mkFs 5 ''/dev/sdb1'' ''/mnt/a'' ''rw'' ''rw'') \<noteq> Source (mkFs 5 ''/dev/sdc1'' ''/mnt/b'' ''rw'' ''rw'') \<and>
   Target (mkFs 5 ''/dev/sdb1'' ''/mnt/a'' ''rw'' ''rw'') \<noteq> Target (mkFs 5 ''/dev/sdc1'' ''/mnt/b'' ''rw'' ''rw'') \<and>
   GenerateDiff (Some \<lparr>entries = [mkFs 5 ''/dev/sdb1'' ''/mnt/a'' ''rw'' ''rw'']\<rparr>)
     (Some \<lparr>entries = [mkFs 5 ''/dev/sdc1'' ''/mnt/b'' ''rw'' ''rw'']\<rparr>) =
     [\<lparr>oldFs = None, newFs = Some (mkFs 5 ''/dev/sdc1'' ''/mnt/b'' ''rw'' ''rw''), action = MountActionMount\<rparr>,
      \<lparr>oldFs = Some (mkFs 5 ''/dev/sdb1'' ''/mnt/a'' ''rw'' ''rw''), newFs = None, action = MountActionUmount\<rparr>]"
  by (simp add: run_defs)

text \<open>
  Claim C2, amended. Let the IDs be pairwise distinct within the old table and within
  the new table, and let an old entry \<open>ofs\<close> and a new entry \<open>nfs\<close> have the same ID and the
  same Source, where no entry of the new table has the Source and Target of \<open>ofs\<close> and no
  entry of the old table has the Source and Target of \<open>nfs\<close> (so the Targets differ). Then
  the returned list has exactly one entry that mentions \<open>nfs\<close> as \<^verbatim>\<open>newFs\<close> or \<open>ofs\<close> as
  \<^verbatim>\<open>oldFs\<close>, and it is the Move entry from \<open>ofs\<close> to \<open>nfs\<close>: there is neither a Mount entry
  for \<open>nfs\<close> nor an Umount entry for \<open>ofs\<close>.
\<close>

theorem GenerateDiff_move_same_source:
  assumes dO: "distinct (map ID (entries oldTab))"
    and dN: "distinct (map ID (entries newTab))"
    and o: "ofs \<in> set (entries oldTab)"
    and n: "nfs \<in> set (entries newTab)"
    and id: "ID nfs = ID ofs"
    and src: "Source nfs = Source ofs"
    and uo: "\<forall>x\<in>set (entries newTab). \<not> (Source x = Source ofs \<and> Target x = Target ofs)"
    and un: "\<forall>x\<in>set (entries oldTab). \<not> (Source x = Source nfs \<and> Target x = Target nfs)"
  shows "filter (\<lambda>e. newFs e = Some nfs \<or> oldFs e = Some ofs)
           (GenerateDiff (Some oldTab) (Some newTab)) = [moveEntry ofs nfs]"
proof -
  define P where "P = pass1 oldTab newTab"
  define R where "R = GenerateDiff (Some oldTab) (Some newTab)"
  have umO: "unmatched newTab ofs" using uo by (simp add: unmatched_def Find_None_iff)
  have umN: "unmatched oldTab nfs" using un by (simp add: unmatched_def Find_None_iff)
  from o obtain pre post where split: "entries oldTab = pre @ ofs # post"
    by (auto dest: split_list)
  define D where "D = fold (searchOld newTab) pre P"
  define X where "X = searchOld newTab ofs D"
  have Rfull: "R = fold (searchOld newTab) (entries oldTab) P"
    by (simp add: R_def P_def GenerateDiff_two_pass tabOf_def pass2_def)
  have RX: "R = fold (searchOld newTab) post X"
    by (simp add: Rfull split X_def D_def)
  have "distinct (map ID pre @ ID ofs # map ID post)" using dO by (simp add: split)
  then have idpre: "ID ofs \<notin> ID ` set pre" and idpost: "ID ofs \<notin> ID ` set post"
    by auto
  have npre: "ofs \<notin> set pre" using idpre by auto
  have npost: "ofs \<notin> set post" using idpost by auto
  have injN: "inj_on ID (set (entries newTab))" using dN by (simp add: distinct_map)
  have sameN: "x = nfs" if "x \<in> set (entries newTab)" "ID x = ID ofs" for x
    using inj_onD[OF injN, of x nfs] that n id by simp
  have invP: "\<forall>e\<in>set P. entryInv oldTab newTab e"
    unfolding P_def using entryInv_pass1 by blast
  have invD: "\<forall>e\<in>set D. entryInv oldTab newTab e"
    unfolding D_def using invP by (intro entryInv_fold_searchOld) (auto simp: split)
  have invR: "\<forall>e\<in>set R. entryInv oldTab newTab e"
    unfolding Rfull using invP by (intro entryInv_fold_searchOld) auto
  have "mountEntry nfs \<in> set P" unfolding P_def using n umN by (rule pass1_mount_mem)
  moreover have "isMountOf (mountEntry nfs) (Source ofs) (ID ofs)"
    using id src by (simp add: isMountOf_def mountEntry_def)
  ultimately have "getMountEntry P (Source ofs) (ID ofs) \<noteq> None"
    by (auto simp: gme_None_iff)
  moreover have "getMountEntry D (Source ofs) (ID ofs) = getMountEntry P (Source ofs) (ID ofs)"
    unfolding D_def using idpre by (rule gme_fold_searchOld_other)
  ultimately have gD: "getMountEntry D (Source ofs) (ID ofs) \<noteq> None" by simp
  have step: "\<exists>k. k < length R \<and> R ! k = moveEntry ofs nfs \<and>
      set X \<subseteq> insert (moveEntry ofs nfs) (set D)"
  proof (cases rule: searchOld_cases[of newTab ofs D])
    case matched
    then show ?thesis using umO by simp
  next
    case umount
    then show ?thesis using gD by simp
  next
    case (move k n')
    have "entryInv oldTab newTab (D ! k)" using invD move(3) by simp
    then obtain n'' where n'': "n'' \<in> set (entries newTab)" "D ! k = mountEntry n''"
      using move(4) by (auto simp: entryInv_def)
    have "n'' = n'" using n''(2) move(5) by (simp add: mountEntry_def)
    then have "n' = nfs" using sameN n''(1) move(6) by simp
    then have Dk: "D ! k = mountEntry nfs" using n''(2) \<open>n'' = n'\<close> by simp
    have upd: "(D ! k)\<lparr>oldFs := Some ofs, action := MountActionMove\<rparr> = moveEntry ofs nfs"
      by (simp add: Dk mountEntry_def moveEntry_def)
    have Xeq: "X = D[k := moveEntry ofs nfs]" using move(8) by (simp add: X_def upd)
    have "k < length X" "action (X ! k) \<noteq> MountActionMount"
      using move(3) by (simp_all add: Xeq moveEntry_def)
    from fold_searchOld_stable[OF this, of newTab post]
    have "k < length R \<and> R ! k = X ! k" by (simp add: RX)
    moreover have "X ! k = moveEntry ofs nfs" using move(3) by (simp add: Xeq)
    moreover have "set X \<subseteq> insert (moveEntry ofs nfs) (set D)"
      unfolding Xeq by (rule set_update_subset_insert)
    ultimately show ?thesis by auto
  qed
  then obtain k where k: "k < length R" "R ! k = moveEntry ofs nfs"
    and Xsub: "set X \<subseteq> insert (moveEntry ofs nfs) (set D)"
    by blast
  obtain A us where shape: "R = A @ map umountEntry us"
    and rel: "list_all2 (reclassified (entries oldTab)) P A"
    unfolding Rfull using pass2_shape by blast
  define ns where "ns = filter (\<lambda>x. searchNew oldTab x [] \<noteq> []) (entries newTab)"
  have mapA: "map newFs A = map Some ns"
    using reclassified_map_newFs[OF rel] by (simp add: P_def pass1_newFs ns_def)
  have lenA: "length A = length ns" using mapA by (metis length_map)
  have "distinct (entries newTab)" using dN by (simp add: distinct_map)
  then have dns: "distinct ns" by (simp add: ns_def)
  have pos: "j < length ns \<and> ns ! j = nfs" if j: "j < length R" "newFs (R ! j) = Some nfs" for j
  proof -
    have jA: "j < length A"
    proof (rule ccontr)
      assume "\<not> j < length A"
      then have "R ! j = map umountEntry us ! (j - length A)" "j - length A < length us"
        using j(1) by (auto simp: shape nth_append)
      then have "newFs (R ! j) = None" by (simp add: umountEntry_def)
      with j(2) show False by simp
    qed
    then have "R ! j = A ! j" by (simp add: shape nth_append)
    moreover have "map newFs A ! j = map Some ns ! j" by (simp add: mapA)
    ultimately have "Some nfs = Some (ns ! j)" using jA lenA j(2) by simp
    then show ?thesis using jA lenA by simp
  qed
  have kpos: "k < length ns \<and> ns ! k = nfs"
    using k by (intro pos) (simp_all add: moveEntry_def)
  have uniq: "j = k" if "j < length R" "newFs (R ! j) = Some nfs" for j
  proof -
    have "j < length ns \<and> ns ! j = nfs" using that by (rule pos)
    then have "j < length ns" "k < length ns" "ns ! j = ns ! k" using kpos by simp_all
    then show ?thesis using nth_eq_iff_index_eq[OF dns, of j k] by simp
  qed
  have noU: "umountEntry ofs \<notin> set R"
  proof
    assume "umountEntry ofs \<in> set R"
    then have "umountEntry ofs \<in> set X"
      unfolding RX using npost by (auto dest: fold_searchOld_umount_origin)
    then have "umountEntry ofs \<in> set D"
      using Xsub by (auto simp: umountEntry_def moveEntry_def)
    then have "umountEntry ofs \<in> set P"
      unfolding D_def using npre by (auto dest: fold_searchOld_umount_origin)
    then have "action (umountEntry ofs) = MountActionMount \<or>
        action (umountEntry ofs) = MountActionRemount"
      unfolding P_def by (rule pass1_actions)
    then show False by (simp add: umountEntry_def)
  qed
  have old_case: "e = moveEntry ofs nfs" if e: "e \<in> set R" "oldFs e = Some ofs" for e
  proof -
    have inv: "entryInv oldTab newTab e" using invR e(1) by simp
    show ?thesis
    proof (cases "action e")
      case MountActionMount
      then show ?thesis using inv e(2) by (auto simp: entryInv_def mountEntry_def)
    next
      case MountActionUmount
      then have "e = umountEntry ofs" using inv e(2) by (auto simp: entryInv_def umountEntry_def)
      then show ?thesis using noU e(1) by simp
    next
      case MountActionMove
      then obtain o' n' where m: "n' \<in> set (entries newTab)" "e = moveEntry o' n'" "ID n' = ID o'"
        using inv by (auto simp: entryInv_def)
      then have "o' = ofs" using e(2) by (simp add: moveEntry_def)
      then have "n' = nfs" using sameN m(1,3) by simp
      then show ?thesis using m(2) \<open>o' = ofs\<close> by simp
    next
      case MountActionRemount
      then obtain o' n' where r: "n' \<in> set (entries newTab)" "e = remountEntry o' n'"
        "Find oldTab [SourceFilter (Source n'), TargetFilter (Target n')] = Some o'"
        using inv by (auto simp: entryInv_def)
      then have "o' = ofs" using e(2) by (simp add: remountEntry_def)
      then have "Source ofs = Source n'" "Target ofs = Target n'"
        using Find_SomeD(2,3)[OF r(3)] by simp_all
      then show ?thesis using uo r(1) by auto
    qed
  qed
  have others: "\<forall>j<length R. j \<noteq> k \<longrightarrow> \<not> (newFs (R ! j) = Some nfs \<or> oldFs (R ! j) = Some ofs)"
  proof (intro allI impI notI)
    fix j assume j: "j < length R" "j \<noteq> k"
      and q: "newFs (R ! j) = Some nfs \<or> oldFs (R ! j) = Some ofs"
    have "newFs (R ! j) = Some nfs"
    proof (rule disjE[OF q])
      assume "oldFs (R ! j) = Some ofs"
      then have "R ! j = moveEntry ofs nfs" using j(1) by (intro old_case) simp_all
      then show "newFs (R ! j) = Some nfs" by (simp add: moveEntry_def)
    qed
    then have "j = k" using j(1) by (rule uniq[rotated])
    with j(2) show False by simp
  qed
  have "newFs (R ! k) = Some nfs \<or> oldFs (R ! k) = Some ofs"
    using k(2) by (simp add: moveEntry_def)
  from filter_single[of k R "\<lambda>e. newFs e = Some nfs \<or> oldFs e = Some ofs", OF k(1) this others]
  show ?thesis using k(2) by (simp add: R_def)
qed

theorem GenerateDiff_move_same_source_witness:
  "distinct (map ID (entries oldTabEx)) \<and> distinct (map ID (entries newTabEx)) \<and>
   mkFs 5 ''/dev/sdb1'' ''/mnt/a'' ''rw'' ''rw'' \<in> set (entries oldTabEx) \<and>
   mkFs 5 ''/dev/sdb1'' ''/mnt/b'' ''rw'' ''rw'' \<in> set (entries newTabEx) \<and>
   ID (mkFs 5 ''/dev/sdb1'' ''/mnt/b'' ''rw'' ''rw'') = ID (mkFs 5 ''/dev/sdb1'' ''/mnt/a'' ''rw'' ''rw'') \<and>
   Source (mkFs 5 ''/dev/sdb1'' ''/mnt/b'' ''rw'' ''rw'') = Source (mkFs 5 ''/dev/sdb1'' ''/mnt/a'' ''rw'' ''rw'') \<and>
   Target (mkFs 5 ''/dev/sdb1'' ''/mnt/b'' ''rw'' ''rw'') \<noteq> Target (mkFs 5 ''/dev/sdb1'' ''/mnt/a'' ''rw'' ''rw'') \<and>
   filter (\<lambda>e. newFs e = Some (mkFs 5 ''/dev/sdb1'' ''/mnt/b'' ''rw'' ''rw'') \<or> oldFs e = Some (mkFs 5 ''/dev/sdb1'' ''/mnt/a'' ''rw'' ''rw''))
     (GenerateDiff (Some oldTabEx) (Some newTabEx)) =
     [moveEntry (mkFs 5 ''/dev/sdb1'' ''/mnt/a'' ''rw'' ''rw'') (mkFs 5 ''/dev/sdb1'' ''/mnt/b'' ''rw'' ''rw'')]"
proof -
  have dO: "distinct (map ID (entries oldTabEx))" by (simp add: oldTabEx_def mkFs_def)
  have dN: "distinct (map ID (entries newTabEx))" by (simp add: newTabEx_def mkFs_def)
  have o: "mkFs 5 ''/dev/sdb1'' ''/mnt/a'' ''rw'' ''rw'' \<in> set (entries oldTabEx)" by (simp add: oldTabEx_def)
  have n: "mkFs 5 ''/dev/sdb1'' ''/mnt/b'' ''rw'' ''rw'' \<in> set (entries newTabEx)" by (simp add: newTabEx_def)
  have i: "ID (mkFs 5 ''/dev/sdb1'' ''/mnt/b'' ''rw'' ''rw'') = ID (mkFs 5 ''/dev/sdb1'' ''/mnt/a'' ''rw'' ''rw'')"
    and s: "Source (mkFs 5 ''/dev/sdb1'' ''/mnt/b'' ''rw'' ''rw'') = Source (mkFs 5 ''/dev/sdb1'' ''/mnt/a'' ''rw'' ''rw'')"
    and t: "Target (mkFs 5 ''/dev/sdb1'' ''/mnt/b'' ''rw'' ''rw'') \<noteq> Target (mkFs 5 ''/dev/sdb1'' ''/mnt/a'' ''rw'' ''rw'')"
    by (simp_all add: mkFs_def)
  have uo: "\<forall>x\<in>set (entries newTabEx).
      \<not> (Source x = Source (mkFs 5 ''/dev/sdb1'' ''/mnt/a'' ''rw'' ''rw'') \<and> Target x = Target (mkFs 5 ''/dev/sdb1'' ''/mnt/a'' ''rw'' ''rw''))"
    by (simp add: newTabEx_def mkFs_def)
  have un: "\<forall>x\<in>set (entries oldTabEx).
      \<not> (Source x = Source (mkFs 5 ''/dev/sdb1'' ''/mnt/b'' ''rw'' ''rw'') \<and> Target x = Target (mkFs 5 ''/dev/sdb1'' ''/mnt/b'' ''rw'' ''rw''))"
    by (simp add: oldTabEx_def mkFs_def)
  show ?thesis
    using dO dN o n i s t GenerateDiff_move_same_source[OF dO dN o n i s uo un] by blast
qed

end
